theory Spec2Isabelle
  imports Main "HOL-Library.Multiset"
begin

section \<open>Loading a saved project: a model of \<open>simulator/src/data/load.ts\<close>\<close>

text \<open>
  The loader rebuilds the live circuit graph from a project descriptor. Live objects are
  mutable and shared, so the model keeps them in explicit stores indexed by references;
  every function of the source takes the store and returns the updated one. Numbers are
  modelled as integers: every number the loader computes with (array lengths, node
  indices, layout coordinates built from them) is integral, and \<open>height / 2\<close> is exact
  because the synthesized height is even.
\<close>

subsection \<open>Values and descriptors\<close>

type_synonym ref = nat

datatype jsval =
    Undefined
  | Null
  | Bool bool
  | Num int
  | Str string
  | Ref ref
  | Arr "jsval list"
  | Obj "(string \<times> jsval) list"

text \<open>Truthiness, as tested by \<open>a || b\<close>, \<open>if (a)\<close> and \<open>!a\<close>.\<close>

fun truthy :: "jsval \<Rightarrow> bool" where
  "truthy Undefined = False"
| "truthy Null = False"
| "truthy (Bool b) = b"
| "truthy (Num n) = (n \<noteq> 0)"
| "truthy (Str s) = (s \<noteq> [])"
| "truthy (Ref r) = True"
| "truthy (Arr xs) = True"
| "truthy (Obj kvs) = True"

definition js_or :: "jsval \<Rightarrow> jsval \<Rightarrow> jsval" where
  "js_or a b = (if truthy a then a else b)"

text \<open>An optional field of a descriptor reads as \<open>undefined\<close> when it is absent.\<close>

definition opt_str :: "string option \<Rightarrow> jsval" where
  "opt_str v = (case v of None \<Rightarrow> Undefined | Some s \<Rightarrow> Str s)"

definition opt_num :: "int option \<Rightarrow> jsval" where
  "opt_num v = (case v of None \<Rightarrow> Undefined | Some n \<Rightarrow> Num n)"

definition opt_val :: "jsval option \<Rightarrow> jsval" where
  "opt_val v = (case v of None \<Rightarrow> Undefined | Some u \<Rightarrow> u)"

text \<open>
  The interface \<open>CircuitElement\<close> of the source: an element descriptor. The maps
  \<open>values\<close> (here \<open>values_ov\<close>) and \<open>nodes\<close> are association lists in the order
  \<open>for ... in\<close> visits their keys.
\<close>

record CustomData =
  constructorParamaters :: "jsval list option"
  values_ov :: "(string \<times> jsval) list option"
  nodes :: "(string \<times> jsval) list option"

record CircuitElement =
  objectType :: string
  elem_x :: int
  elem_y :: int
  label :: "string option"
  labelDirection :: "string option"
  propagationDelay :: "int option"
  customData :: "CustomData option"
  subcircuitMetadata :: "jsval option"

text \<open>The interface \<open>NodeData\<close>: a live node, with its \<open>type\<close> and its \<open>parent\<close>.\<close>

record NodeData =
  type :: int
  parent :: ref
  connections :: "ref list"

datatype TestbenchData = TestbenchData jsval jsval jsval

record TestbenchDescr =
  testData :: jsval
  currentGroup :: jsval
  currentCase :: jsval

record VerilogMetadata =
  isVerilogCircuit :: bool
  isMainCircuit :: bool

record Layout =
  width :: int
  height :: int
  title_x :: int
  title_y :: int
  titleEnabled :: "bool option"

text \<open>
  The interface \<open>ScopeData\<close>: a scope descriptor. \<open>elements\<close> is the part of the
  descriptor read as \<open>data[ML[i]]\<close>, the element descriptors under each type tag.
\<close>

record ScopeData =
  name :: "string option"
  scope_id :: jsval
  restrictedCircuitElementsUsed :: "jsval list"
  allNodes :: "jsval list"
  verilogMetadata :: "VerilogMetadata option"
  testbenchData :: "TestbenchDescr option"
  layout :: "Layout option"
  elements :: "string \<Rightarrow> CircuitElement list option"

text \<open>The interface \<open>ProjectData\<close>: a project descriptor.\<close>

record ProjectData =
  projectId :: "jsval option"
  name :: string
  scopes :: "ScopeData list"
  timePeriod :: "int option"
  clockEnabled :: "bool option"
  orderedTabs :: "string list option"
  focussedCircuit :: "jsval option"

text \<open>The interface \<open>Scope\<close>: a live scope.\<close>

record Scope =
  restrictedCircuitElementsUsed :: "jsval list"
  allNodes :: "ref list"
  verilogMetadata :: "VerilogMetadata option"
  testbenchData :: "TestbenchData option"
  layout :: Layout
  Input :: "ref list option"
  Output :: "ref list option"
  wires :: "ref list option"

subsection \<open>The store\<close>

text \<open>
  \<open>props\<close> holds the properties of live elements (read and written as \<open>obj[key]\<close>),
  \<open>nodeHeap\<close> the live nodes, \<open>scopeHeap\<close> the live scopes. \<open>globalScope\<close> is the
  global focus reference, \<open>console\<close> the diagnostics written by \<open>console.error\<close>,
  \<open>idCalls\<close> counts the calls of \<open>generateId\<close> made so far, \<open>circuit_list\<close> is the
  list of tabs kept by the simulator store and \<open>sim_clockEnabled\<close> is
  \<open>simulationArea.clockEnabled\<close>.
\<close>

record Tab =
  tab_id :: jsval

record world =
  props :: "ref \<Rightarrow> string \<Rightarrow> jsval"
  nodeHeap :: "ref \<Rightarrow> NodeData"
  scopeHeap :: "ref \<Rightarrow> Scope"
  globalScope :: "ref option"
  console :: "string list"
  idCalls :: nat
  circuit_list :: "Tab list"
  sim_clockEnabled :: bool

datatype error = TypeError | MalformedDescriptor | Thrown string

definition bindE :: "error + 'a \<Rightarrow> ('a \<Rightarrow> error + 'b) \<Rightarrow> error + 'b" where
  "bindE m f = (case m of Inl e \<Rightarrow> Inl e | Inr v \<Rightarrow> f v)"

definition set_prop :: "ref \<Rightarrow> string \<Rightarrow> jsval \<Rightarrow> world \<Rightarrow> world" where
  "set_prop obj key v w = w\<lparr>props := (props w)(obj := (props w obj)(key := v))\<rparr>"

definition nodes_of :: "world \<Rightarrow> ref \<Rightarrow> ref list" where
  "nodes_of w scope = Scope.allNodes (scopeHeap w scope)"

definition set_allNodes :: "ref \<Rightarrow> ref list \<Rightarrow> world \<Rightarrow> world" where
  "set_allNodes scope ns w =
     w\<lparr>scopeHeap := (scopeHeap w)(scope := (scopeHeap w scope)\<lparr>Scope.allNodes := ns\<rparr>)\<rparr>"

subsection \<open>Graph repair: \<open>removeBugNodes\<close>\<close>

text \<open>
  Modelled from the spec: \<open>node.delete()\<close>, a method of the node class, which is not part
  of the loader. Deleting a node removes it from the node set of its scope (each deletion
  strictly shrinks the node set) and can cascade: \<open>cascade\<close> gives the further nodes that
  the cleanup of one deletion removes.
\<close>

definition node_delete :: "(ref \<Rightarrow> world \<Rightarrow> ref list) \<Rightarrow> ref \<Rightarrow> ref \<Rightarrow> world \<Rightarrow> world" where
  "node_delete cascade scope node w =
     set_allNodes scope
       (filter (\<lambda>m. m \<noteq> node \<and> m \<notin> set (cascade node w)) (nodes_of w scope)) w"

text \<open>The test of the source: \<open>node.type !== 2 && node.parent.objectType === 'CircuitElement'\<close>.\<close>

definition isBugNode :: "world \<Rightarrow> ref \<Rightarrow> bool" where
  "isBugNode w node \<longleftrightarrow>
     NodeData.type (nodeHeap w node) \<noteq> 2 \<and>
     props w (parent (nodeHeap w node)) ''objectType'' = Str ''CircuitElement''"

text \<open>
  One pass through the body of the \<open>for\<close> loop, followed by the increment \<open>i++\<close> of
  the loop header: the state of the loop is the index \<open>i\<close>, the bound \<open>x\<close> and the
  store. When the size of the node set has changed, the body assigns \<open>i = 0\<close> and
  \<open>x = scope.allNodes.length\<close>, and the increment then applies to that \<open>i\<close>.
\<close>

definition removeBugNodes_body ::
  "(ref \<Rightarrow> world \<Rightarrow> ref list) \<Rightarrow> ref \<Rightarrow> nat \<times> nat \<times> world \<Rightarrow> nat \<times> nat \<times> world" where
  "removeBugNodes_body cascade scope st =
     (case st of (i, x, w) \<Rightarrow>
        let node = nodes_of w scope ! i;
            w' = (if isBugNode w node then node_delete cascade scope node w else w);
            (i', x') = (if length (nodes_of w' scope) \<noteq> x
                        then (0, length (nodes_of w' scope)) else (i, x))
        in (i' + 1, x', w'))"

text \<open>
  The loop runs while \<open>i < x\<close>. Reading \<open>scope.allNodes[i]\<close> beyond the end of the array
  gives \<open>undefined\<close>, whose \<open>type\<close> cannot be read: that is the \<open>TypeError\<close> branch,
  and the body is entered only with \<open>i\<close> inside the array. The termination of the loop
  is proved in the section on Graph Repair below.
\<close>

function removeBugNodes_loop ::
  "(ref \<Rightarrow> world \<Rightarrow> ref list) \<Rightarrow> ref \<Rightarrow> nat \<times> nat \<times> world \<Rightarrow> error + world" where
  "removeBugNodes_loop cascade scope (i, x, w) =
     (if i < x
      then (if i < length (nodes_of w scope)
            then removeBugNodes_loop cascade scope (removeBugNodes_body cascade scope (i, x, w))
            else Inl TypeError)
      else Inr w)"
  by pat_completeness auto

text \<open>\<open>removeBugNodes(scope)\<close>: the loop started at \<open>i = 0\<close>, \<open>x = scope.allNodes.length\<close>.\<close>

definition removeBugNodes :: "(ref \<Rightarrow> world \<Rightarrow> ref list) \<Rightarrow> ref \<Rightarrow> world \<Rightarrow> error + world" where
  "removeBugNodes cascade scope w =
     removeBugNodes_loop cascade scope (0, length (nodes_of w scope), w)"

subsection \<open>Collaborators\<close>

text \<open>
  The loader calls into the rest of the simulator. What is called and not defined in
  \<open>load.ts\<close> is a parameter of the model: the table \<open>modules\<close> of element
  constructors (a constructor takes \<open>x\<close>, \<open>y\<close>, the scope and the constructor
  parameters, and returns the new element), the module list, the direction tables, the
  method \<open>fixDirection\<close> of an element, \<open>loadNode\<close>, \<open>constructNodeConnections\<close>,
  \<open>loadSubCircuit\<close>, the method \<open>updateData\<close> of a wire, \<open>newCircuit\<close>, the
  conversion \<open>String\<close>, the flags \<open>embed\<close> and \<open>__projectName\<close>, and \<open>extern\<close>
  for the procedures called for their effect only. \<open>generateId\<close> gives the identifier
  returned by each successive call. A collaborator that throws returns \<open>Inl\<close>.
\<close>

type_synonym ctor = "int \<Rightarrow> int \<Rightarrow> ref \<Rightarrow> jsval list \<Rightarrow> world \<Rightarrow> error + (ref \<times> world)"

record env =
  modules :: "string \<Rightarrow> ctor option"
  moduleList :: "string list"
  fixDirection :: "jsval \<Rightarrow> jsval"
  oppositeDirection :: "jsval \<Rightarrow> jsval"
  fixDirection_method :: "ref \<Rightarrow> world \<Rightarrow> error + world"
  loadNode :: "jsval \<Rightarrow> ref \<Rightarrow> world \<Rightarrow> error + world"
  constructNodeConnections :: "jsval \<Rightarrow> jsval \<Rightarrow> world \<Rightarrow> error + world"
  loadSubCircuit :: "CircuitElement \<Rightarrow> ref \<Rightarrow> world \<Rightarrow> error + world"
  updateData :: "ref \<Rightarrow> ref \<Rightarrow> world \<Rightarrow> error + world"
  cascade :: "ref \<Rightarrow> world \<Rightarrow> ref list"
  generateId :: "nat \<Rightarrow> string"
  newCircuit :: "string \<Rightarrow> jsval \<Rightarrow> bool \<Rightarrow> bool \<Rightarrow> world \<Rightarrow> error + (ref \<times> world)"
  String_of :: "jsval \<Rightarrow> string"
  embed :: bool
  projectName :: string
  extern :: "string \<Rightarrow> jsval list \<Rightarrow> world \<Rightarrow> error + world"

subsection \<open>Type rectification\<close>

text \<open>
  \<open>rectify[obj] || obj\<close> over the table of the source. Type tags are taken not to be
  names of members that every object inherits (such as \<open>constructor\<close>).
\<close>

definition rectify :: "(string \<times> string) list" where
  "rectify = [(''FlipFlop'', ''DflipFlop''), (''Ram'', ''Rom'')]"

definition rectifyObjectType :: "string \<Rightarrow> string" where
  "rectifyObjectType obj =
     (case map_of rectify obj of
        None \<Rightarrow> obj
      | Some t \<Rightarrow> if t \<noteq> [] then t else obj)"

subsection \<open>Node rewiring: \<open>replace\<close>\<close>

text \<open>
  Modelled from the spec: \<open>replace(node, index)\<close> of the node module, which is not part of
  the loader. It discards the freshly constructed placeholder \<open>node\<close>, transfers the
  connections of the placeholder onto the pre-loaded node at \<open>index\<close> of the node set,
  and returns that pre-loaded node, which the caller stores in the property of the
  element. The target absorbs the edges of the placeholder, every peer that held an edge
  to the placeholder is updated to point at the target, and the placeholder is left
  without connections and outside the node set: no connection to it exists afterwards.
  The scope is the one the placeholder belongs to. The index is read once the placeholder
  is discarded; an index outside the node set, or a first argument that is no node, is a
  malformed descriptor.
\<close>

definition transfer :: "ref \<Rightarrow> ref \<Rightarrow> (ref \<Rightarrow> NodeData) \<Rightarrow> ref \<Rightarrow> NodeData" where
  "transfer p t nh m =
     (let cs = (if m = t then connections (nh m) @ connections (nh p)
                else if m = p then []
                else connections (nh m))
      in (nh m)\<lparr>connections := map (\<lambda>c. if c = p then t else c) cs\<rparr>)"

definition replace :: "ref \<Rightarrow> jsval \<Rightarrow> jsval \<Rightarrow> world \<Rightarrow> error + (jsval \<times> world)" where
  "replace scope node index w =
     (case node of
        Ref p \<Rightarrow>
          (case index of
             Num k \<Rightarrow>
               (let w1 = set_allNodes scope (filter (\<lambda>m. m \<noteq> p) (nodes_of w scope)) w
                in if 0 \<le> k \<and> nat k < length (nodes_of w1 scope)
                   then (let t = nodes_of w1 scope ! nat k
                         in Inr (Ref t, w1\<lparr>nodeHeap := transfer p t (nodeHeap w1)\<rparr>))
                   else Inl MalformedDescriptor)
           | _ \<Rightarrow> Inl MalformedDescriptor)
      | _ \<Rightarrow> Inl MalformedDescriptor)"

subsection \<open>Loading one element: \<open>loadModule\<close>\<close>

text \<open>\<open>data.customData?.constructorParamaters || []\<close>.\<close>

definition constructor_params :: "CircuitElement \<Rightarrow> jsval list" where
  "constructor_params d =
     (case customData d of
        None \<Rightarrow> []
      | Some c \<Rightarrow> (case constructorParamaters c of None \<Rightarrow> [] | Some ps \<Rightarrow> ps))"

text \<open>The three assignments to \<open>label\<close>, \<open>labelDirection\<close> and \<open>propagationDelay\<close>.\<close>

definition set_directions_and_delay :: "env \<Rightarrow> CircuitElement \<Rightarrow> ref \<Rightarrow> world \<Rightarrow> world" where
  "set_directions_and_delay E d obj w =
     (let w1 = set_prop obj ''label'' (opt_str (label d)) w;
          w2 = set_prop obj ''labelDirection''
                 (js_or (opt_str (labelDirection d))
                        (oppositeDirection E (fixDirection E (props w1 obj ''direction'')))) w1
      in set_prop obj ''propagationDelay''
           (js_or (opt_num (propagationDelay d)) (props w2 obj ''propagationDelay'')) w2)"

text \<open>
  \<open>for (const prop in data.customData.values) obj[prop] = data.customData.values[prop]\<close>,
  over the entries of \<open>data.customData?.values\<close>, none when it is absent.
\<close>

definition value_overrides :: "CircuitElement \<Rightarrow> (string \<times> jsval) list" where
  "value_overrides d =
     (case customData d of
        None \<Rightarrow> []
      | Some c \<Rightarrow> (case values_ov c of None \<Rightarrow> [] | Some vs \<Rightarrow> vs))"

definition restore_values :: "CircuitElement \<Rightarrow> ref \<Rightarrow> world \<Rightarrow> world" where
  "restore_values d obj w = foldl (\<lambda>u (prop, v). set_prop obj prop v u) w (value_overrides d)"

text \<open>
  Writing \<open>a[i] = v\<close> in an array: beyond the end, the array is extended and the gap
  reads \<open>undefined\<close>.
\<close>

definition array_set :: "jsval list \<Rightarrow> nat \<Rightarrow> jsval \<Rightarrow> jsval list" where
  "array_set xs i v =
     (if i < length xs then xs[i := v]
      else xs @ replicate (i - length xs) Undefined @ [v])"

definition array_get :: "jsval list \<Rightarrow> nat \<Rightarrow> jsval" where
  "array_get xs i = (if i < length xs then xs ! i else Undefined)"

text \<open>
  The inner loop \<open>obj[node][i] = replace(obj[node][i], n[i])\<close>, from index \<open>i\<close> on, over
  the indices that remain. Reading \<open>obj[node][i]\<close> when \<open>obj[node]\<close> is \<open>undefined\<close> or
  \<open>null\<close> throws; when \<open>obj[node]\<close> is another value that is no array, what is read is
  no node, and \<open>replace\<close> rejects it.
\<close>

fun rewire_array :: "ref \<Rightarrow> ref \<Rightarrow> string \<Rightarrow> nat \<Rightarrow> jsval list \<Rightarrow> world \<Rightarrow> error + world" where
  "rewire_array scope obj node i [] w = Inr w"
| "rewire_array scope obj node i (k # ks) w =
     (case props w obj node of
        Arr xs \<Rightarrow>
          bindE (replace scope (array_get xs i) k w)
            (\<lambda>(r, w'). rewire_array scope obj node (i + 1) ks
                          (set_prop obj node (Arr (array_set xs i r)) w'))
      | Undefined \<Rightarrow> Inl TypeError
      | Null \<Rightarrow> Inl TypeError
      | _ \<Rightarrow> Inl MalformedDescriptor)"

text \<open>
  The loop over the keys of \<open>data.customData.nodes\<close>; \<open>node_overrides\<close> are the
  entries of \<open>data.customData?.nodes\<close>, none when it is absent.
\<close>

fun rewire_nodes :: "ref \<Rightarrow> ref \<Rightarrow> (string \<times> jsval) list \<Rightarrow> world \<Rightarrow> error + world" where
  "rewire_nodes scope obj [] w = Inr w"
| "rewire_nodes scope obj ((node, n) # rest) w =
     bindE (case n of
              Arr ks \<Rightarrow> rewire_array scope obj node 0 ks w
            | _ \<Rightarrow> bindE (replace scope (props w obj node) n w)
                     (\<lambda>(r, w'). Inr (set_prop obj node r w')))
       (rewire_nodes scope obj rest)"

definition node_overrides :: "CircuitElement \<Rightarrow> (string \<times> jsval) list" where
  "node_overrides d =
     (case customData d of
        None \<Rightarrow> []
      | Some c \<Rightarrow> (case nodes c of None \<Rightarrow> [] | Some ovs \<Rightarrow> ovs))"

definition attach_subcircuitMetadata :: "CircuitElement \<Rightarrow> ref \<Rightarrow> world \<Rightarrow> world" where
  "attach_subcircuitMetadata d obj w =
     (if truthy (opt_val (subcircuitMetadata d))
      then set_prop obj ''subcircuitMetadata'' (opt_val (subcircuitMetadata d)) w
      else w)"

text \<open>
  The element as it stands before the node overrides are applied: constructed, with its
  label, directions and delay set, its direction fixed and its other values restored.
\<close>

definition construct_and_restore ::
  "env \<Rightarrow> ctor \<Rightarrow> CircuitElement \<Rightarrow> ref \<Rightarrow> world \<Rightarrow> error + (ref \<times> world)" where
  "construct_and_restore E ModuleClass d scope w =
     bindE (ModuleClass (elem_x d) (elem_y d) scope (constructor_params d) w)
       (\<lambda>(obj, w1).
          bindE (fixDirection_method E obj (set_directions_and_delay E d obj w1))
            (\<lambda>w2. Inr (obj, restore_values d obj w2)))"

text \<open>\<open>console.error(`Module type ${data.objectType} not found`)\<close>.\<close>

definition report_not_found :: "CircuitElement \<Rightarrow> world \<Rightarrow> world" where
  "report_not_found d w =
     w\<lparr>console := console w @ [''Module type '' @ objectType d @ '' not found'']\<rparr>"

definition loadModule :: "env \<Rightarrow> CircuitElement \<Rightarrow> ref \<Rightarrow> world \<Rightarrow> error + world" where
  "loadModule E d scope w =
     (case modules E (rectifyObjectType (objectType d)) of
        None \<Rightarrow> Inr (report_not_found d w)
      | Some ModuleClass \<Rightarrow>
          bindE (construct_and_restore E ModuleClass d scope w)
            (\<lambda>(obj, w1).
               bindE (rewire_nodes scope obj (node_overrides d) w1)
                 (\<lambda>w2. Inr (attach_subcircuitMetadata d obj w2))))"

subsection \<open>Loading one scope: \<open>loadScope\<close>\<close>

text \<open>\<open>data.allNodes.map((x) => loadNode(x, scope))\<close>.\<close>

fun loadNodes :: "env \<Rightarrow> jsval list \<Rightarrow> ref \<Rightarrow> world \<Rightarrow> error + world" where
  "loadNodes E [] scope w = Inr w"
| "loadNodes E (d # ds) scope w = bindE (loadNode E d scope w) (loadNodes E ds scope)"

text \<open>
  \<open>constructNodeConnections(scope.allNodes[i], data.allNodes[i])\<close> for each index of
  \<open>data.allNodes\<close>; \<open>scope.allNodes[i]\<close> is \<open>undefined\<close> beyond the end.
\<close>

definition node_at :: "world \<Rightarrow> ref \<Rightarrow> nat \<Rightarrow> jsval" where
  "node_at w scope i =
     (if i < length (nodes_of w scope) then Ref (nodes_of w scope ! i) else Undefined)"

fun connectNodes :: "env \<Rightarrow> ref \<Rightarrow> nat \<Rightarrow> jsval list \<Rightarrow> world \<Rightarrow> error + world" where
  "connectNodes E scope i [] w = Inr w"
| "connectNodes E scope i (d # ds) w =
     bindE (constructNodeConnections E (node_at w scope i) d w)
       (connectNodes E scope (i + 1) ds)"

text \<open>The inner loop over the descriptors of one type tag, in its two forms.\<close>

fun loadModules :: "env \<Rightarrow> CircuitElement list \<Rightarrow> ref \<Rightarrow> world \<Rightarrow> error + world" where
  "loadModules E [] scope w = Inr w"
| "loadModules E (d # ds) scope w = bindE (loadModule E d scope w) (loadModules E ds scope)"

fun loadSubCircuits :: "env \<Rightarrow> CircuitElement list \<Rightarrow> ref \<Rightarrow> world \<Rightarrow> error + world" where
  "loadSubCircuits E [] scope w = Inr w"
| "loadSubCircuits E (d # ds) scope w =
     bindE (loadSubCircuit E d scope w) (loadSubCircuits E ds scope)"

text \<open>The outer loop over the copy \<open>ML\<close> of the module list.\<close>

fun loadAllModules :: "env \<Rightarrow> string list \<Rightarrow> ScopeData \<Rightarrow> ref \<Rightarrow> world \<Rightarrow> error + world" where
  "loadAllModules E [] data scope w = Inr w"
| "loadAllModules E (m # ms) data scope w =
     bindE (case elements data m of
              None \<Rightarrow> Inr w
            | Some ds \<Rightarrow>
                if m = ''SubCircuit'' then loadSubCircuits E ds scope w
                else loadModules E ds scope w)
       (loadAllModules E ms data scope)"

text \<open>\<open>scope.wires?.map((x) => { x.updateData(scope) })\<close>.\<close>

fun updateWires :: "env \<Rightarrow> ref list \<Rightarrow> ref \<Rightarrow> world \<Rightarrow> error + world" where
  "updateWires E [] scope w = Inr w"
| "updateWires E (x # xs) scope w = bindE (updateData E x scope w) (updateWires E xs scope)"

definition update_wires :: "env \<Rightarrow> ref \<Rightarrow> world \<Rightarrow> error + world" where
  "update_wires E scope w =
     (case wires (scopeHeap w scope) of
        None \<Rightarrow> Inr w
      | Some ws \<Rightarrow> updateWires E ws scope w)"

definition restore_verilogMetadata :: "ScopeData \<Rightarrow> ref \<Rightarrow> world \<Rightarrow> world" where
  "restore_verilogMetadata data scope w =
     (case ScopeData.verilogMetadata data of
        None \<Rightarrow> w
      | Some m \<Rightarrow>
          w\<lparr>scopeHeap := (scopeHeap w)
               (scope := (scopeHeap w scope)\<lparr>Scope.verilogMetadata := Some m\<rparr>)\<rparr>)"

text \<open>
  \<open>if (data.testbenchData && globalScope) globalScope.testbenchData = new TestbenchData(...)\<close>:
  the scope written is the one \<open>globalScope\<close> refers to.
\<close>

definition restore_testbench :: "ScopeData \<Rightarrow> world \<Rightarrow> world" where
  "restore_testbench data w =
     (case ScopeData.testbenchData data of
        None \<Rightarrow> w
      | Some tb \<Rightarrow>
          (case globalScope w of
             None \<Rightarrow> w
           | Some g \<Rightarrow>
               w\<lparr>scopeHeap := (scopeHeap w)
                    (g := (scopeHeap w g)
                       \<lparr>Scope.testbenchData :=
                          Some (TestbenchData (testData tb) (currentGroup tb) (currentCase tb))\<rparr>)\<rparr>))"

text \<open>\<open>scope.Input?.length || 0\<close>.\<close>

definition port_count :: "ref list option \<Rightarrow> nat" where
  "port_count ps = (case ps of None \<Rightarrow> 0 | Some xs \<Rightarrow> length xs)"

text \<open>
  Either loop that places ports, from index \<open>i\<close> on, over the ports that
  remain: \<open>px\<close> is the \<open>x\<close> written, \<open>h\<close> is \<open>scope.layout.height\<close> and \<open>n\<close> the
  length of the port list, which the body does not change.
\<close>

fun layout_ports ::
  "(nat \<Rightarrow> string) \<Rightarrow> int \<Rightarrow> int \<Rightarrow> nat \<Rightarrow> nat \<Rightarrow> ref list \<Rightarrow> world \<Rightarrow> world" where
  "layout_ports gen px h n i [] w = w"
| "layout_ports gen px h n i (p # ps) w =
     layout_ports gen px h n (i + 1) ps
       (set_prop p ''layoutProperties''
          (Obj [(''x'', Num px),
                (''y'', Num (h div 2 - int n * 10 + 20 * int i + 10)),
                (''id'', Str (gen (idCalls w)))])
          (w\<lparr>idCalls := idCalls w + 1\<rparr>))"

definition synthesize_layout :: "env \<Rightarrow> ref \<Rightarrow> world \<Rightarrow> world" where
  "synthesize_layout E scope w =
     (let sc = scopeHeap w scope;
          h = int (max (port_count (Input sc)) (port_count (Output sc))) * 20 + 20;
          lay = \<lparr>width = 100, height = h, title_x = 50, title_y = 13, titleEnabled = None\<rparr>;
          w1 = w\<lparr>scopeHeap := (scopeHeap w)(scope := sc\<lparr>Scope.layout := lay\<rparr>)\<rparr>;
          w2 = (case Input sc of
                  None \<Rightarrow> w1
                | Some ins \<Rightarrow> layout_ports (generateId E) 0 h (length ins) 0 ins w1)
      in (case Output sc of
            None \<Rightarrow> w2
          | Some outs \<Rightarrow> layout_ports (generateId E) (width lay) h (length outs) 0 outs w2))"

definition resolve_layout :: "env \<Rightarrow> ScopeData \<Rightarrow> ref \<Rightarrow> world \<Rightarrow> world" where
  "resolve_layout E data scope w =
     (case ScopeData.layout data of
        Some lay \<Rightarrow> w\<lparr>scopeHeap := (scopeHeap w)(scope := (scopeHeap w scope)\<lparr>Scope.layout := lay\<rparr>)\<rparr>
      | None \<Rightarrow> synthesize_layout E scope w)"

definition default_titleEnabled :: "ref \<Rightarrow> world \<Rightarrow> world" where
  "default_titleEnabled scope w =
     (let sc = scopeHeap w scope
      in if titleEnabled (Scope.layout sc) = None
         then w\<lparr>scopeHeap := (scopeHeap w)
                  (scope := sc\<lparr>Scope.layout := (Scope.layout sc)\<lparr>titleEnabled := Some True\<rparr>\<rparr>)\<rparr>
         else w)"

text \<open>
  The steps of \<open>loadScope\<close> up to Graph Repair, which call collaborators: the nodes and
  their connections, the elements, then the wires and Graph Repair. The steps after
  Graph Repair only write the stores.
\<close>

definition load_nodes :: "env \<Rightarrow> ref \<Rightarrow> ScopeData \<Rightarrow> world \<Rightarrow> error + world" where
  "load_nodes E scope data w =
     (let w0 = w\<lparr>scopeHeap := (scopeHeap w)
                  (scope := (scopeHeap w scope)
                     \<lparr>Scope.restrictedCircuitElementsUsed :=
                        ScopeData.restrictedCircuitElementsUsed data\<rparr>)\<rparr>
      in bindE (loadNodes E (ScopeData.allNodes data) scope w0)
           (connectNodes E scope 0 (ScopeData.allNodes data)))"

definition update_and_repair :: "env \<Rightarrow> ref \<Rightarrow> world \<Rightarrow> error + world" where
  "update_and_repair E scope w =
     bindE (update_wires E scope w) (removeBugNodes (cascade E) scope)"

definition load_graph :: "env \<Rightarrow> ref \<Rightarrow> ScopeData \<Rightarrow> world \<Rightarrow> error + world" where
  "load_graph E scope data w =
     bindE (load_nodes E scope data w)
       (\<lambda>w2. bindE (loadAllModules E (moduleList E) data scope w2)
                (update_and_repair E scope))"

definition restore_metadata :: "env \<Rightarrow> ref \<Rightarrow> ScopeData \<Rightarrow> world \<Rightarrow> world" where
  "restore_metadata E scope data w =
     default_titleEnabled scope
       (resolve_layout E data scope
          (restore_testbench data (restore_verilogMetadata data scope w)))"

definition loadScope :: "env \<Rightarrow> ref \<Rightarrow> ScopeData \<Rightarrow> world \<Rightarrow> error + world" where
  "loadScope E scope data w =
     bindE (load_graph E scope data w) (\<lambda>w5. Inr (restore_metadata E scope data w5))"

subsection \<open>Loading a project: \<open>load\<close>\<close>

text \<open>\<open>Array.prototype.indexOf\<close>: the first index of the value, or \<open>-1\<close>.\<close>

fun indexOf :: "'a list \<Rightarrow> 'a \<Rightarrow> int" where
  "indexOf [] v = - 1"
| "indexOf (x # xs) v =
     (if x = v then 0 else (let r = indexOf xs v in if r < 0 then - 1 else r + 1))"

text \<open>
  \<open>Array.prototype.sort\<close> with a comparison function: a stable sort, written here as
  insertion from the right. An element goes before the first one it does not compare
  greater than.
\<close>

fun sort_insert :: "('a \<Rightarrow> 'a \<Rightarrow> int) \<Rightarrow> 'a \<Rightarrow> 'a list \<Rightarrow> 'a list" where
  "sort_insert cmp a [] = [a]"
| "sort_insert cmp a (b # bs) =
     (if cmp a b \<le> 0 then a # b # bs else b # sort_insert cmp a bs)"

definition array_sort :: "('a \<Rightarrow> 'a \<Rightarrow> int) \<Rightarrow> 'a list \<Rightarrow> 'a list" where
  "array_sort cmp xs = foldr (sort_insert cmp) xs []"

text \<open>The position of a tab in the persisted order: \<open>orderedTabs.indexOf(String(a.id))\<close>.\<close>

definition tab_position :: "env \<Rightarrow> string list \<Rightarrow> Tab \<Rightarrow> int" where
  "tab_position E tabs a = indexOf tabs (String_of E (tab_id a))"

definition reorder_tabs :: "env \<Rightarrow> ProjectData \<Rightarrow> world \<Rightarrow> world" where
  "reorder_tabs E data w =
     (case orderedTabs data of
        None \<Rightarrow> w
      | Some tabs \<Rightarrow>
          w\<lparr>circuit_list :=
               array_sort (\<lambda>a b. tab_position E tabs a - tab_position E tabs b) (circuit_list w)\<rparr>)"

text \<open>
  The body of the loop over \<open>data.scopes\<close>. The procedures called for their effect only
  go through \<open>extern\<close>, under their name and with their arguments.
\<close>

definition load_one_scope :: "env \<Rightarrow> ScopeData \<Rightarrow> world \<Rightarrow> error + world" where
  "load_one_scope E sd w =
     (let (isVerilog, isMain) =
            (case ScopeData.verilogMetadata sd of
               None \<Rightarrow> (False, False)
             | Some m \<Rightarrow> (isVerilogCircuit m, isMainCircuit m));
          nm = (case ScopeData.name sd of
                  None \<Rightarrow> ''Untitled''
                | Some s \<Rightarrow> if s \<noteq> [] then s else ''Untitled'')
      in bindE (newCircuit E nm (scope_id sd) isVerilog isMain w)
           (\<lambda>(scope, w1). bindE (loadScope E scope sd w1)
           (\<lambda>w2. bindE (extern E ''centerFocus'' [Ref scope, Bool (embed E)]
                          (w2\<lparr>globalScope := Some scope\<rparr>))
           (\<lambda>w3. bindE (extern E ''update''
                          [case globalScope w3 of None \<Rightarrow> Undefined | Some g \<Rightarrow> Ref g, Bool True] w3)
           (\<lambda>w4. bindE (extern E ''updateRestrictedElementsInScope'' [] w4)
           (\<lambda>w5. extern E ''scheduleBackup'' [] w5))))))"

fun load_scopes :: "env \<Rightarrow> ScopeData list \<Rightarrow> world \<Rightarrow> error + world" where
  "load_scopes E [] w = Inr w"
| "load_scopes E (sd # sds) w = bindE (load_one_scope E sd w) (load_scopes E sds)"

text \<open>Restoring the clock, and showing the properties unless embedded.\<close>

definition restore_clock :: "env \<Rightarrow> ProjectData \<Rightarrow> world \<Rightarrow> error + world" where
  "restore_clock E data w =
     bindE (extern E ''changeClockTime''
              [js_or (opt_num (timePeriod data)) (Num 500)] w)
       (\<lambda>w1. let w2 = w1\<lparr>sim_clockEnabled :=
                          (case clockEnabled data of None \<Rightarrow> True | Some b \<Rightarrow> b)\<rparr>
              in if \<not> embed E then extern E ''showProperties'' [] w2 else Inr w2)"

text \<open>What follows the reordering of the tabs.\<close>

definition load_finish :: "env \<Rightarrow> ProjectData \<Rightarrow> world \<Rightarrow> error + world" where
  "load_finish E data w =
     bindE (if truthy (opt_val (focussedCircuit data))
            then extern E ''switchCircuit'' [Str (String_of E (opt_val (focussedCircuit data)))] w
            else Inr w)
       (\<lambda>w1. bindE (extern E ''updateSimulationSet'' [Bool True] w1)
       (\<lambda>w2. bindE (extern E ''updateCanvasSet'' [Bool True] w2)
       (\<lambda>w3. bindE (extern E ''gridUpdateSet'' [Bool True] w3)
       (\<lambda>w4. bindE (if \<not> embed E then extern E ''plotArea.reset'' [] w4 else Inr w4)
       (\<lambda>w5. extern E ''scheduleUpdate'' [Num 1] w5)))))"

text \<open>What comes before the reordering of the tabs, for a project descriptor.\<close>

definition load_prepare :: "env \<Rightarrow> ProjectData \<Rightarrow> world \<Rightarrow> error + world" where
  "load_prepare E d w =
     bindE (extern E ''setProjectName'' [Str (ProjectData.name d)] w)
       (\<lambda>w1. bindE (extern E ''resetScopeList'' [] (w1\<lparr>globalScope := None\<rparr>))
       (\<lambda>w2. bindE (load_scopes E (scopes d) w2) (restore_clock E d)))"

text \<open>
  \<open>load(data)\<close>. Without a descriptor only the project name is set. The handle on the
  simulator store taken at the start is the field \<open>circuit_list\<close> of the store here.
\<close>

definition load :: "env \<Rightarrow> ProjectData option \<Rightarrow> world \<Rightarrow> error + world" where
  "load E data w =
     (case data of
        None \<Rightarrow> extern E ''setProjectName'' [Str (projectName E)] w
      | Some d \<Rightarrow>
          bindE (load_prepare E d w) (\<lambda>w4. load_finish E d (reorder_tabs E d w4)))"

section \<open>Vocabulary of the statements\<close>

text \<open>The connections of a live node, as a set.\<close>

definition conns :: "world \<Rightarrow> ref \<Rightarrow> ref set" where
  "conns w r = set (connections (nodeHeap w r))"

text \<open>
  A node override is well formed, relative to the pre-loaded nodes \<open>pre\<close>, when the
  property it names holds a freshly constructed node (a node that is not pre-loaded) and
  the override is an index into the pre-loaded nodes; for a sequence of indices, when the
  property holds an array with such a node at each position that has an index.
\<close>

definition is_index :: "nat \<Rightarrow> jsval \<Rightarrow> bool" where
  "is_index N v = (case v of Num k \<Rightarrow> 0 \<le> k \<and> nat k < N | _ \<Rightarrow> False)"

definition is_placeholder :: "ref list \<Rightarrow> jsval \<Rightarrow> bool" where
  "is_placeholder pre v = (case v of Ref r \<Rightarrow> r \<notin> set pre | _ \<Rightarrow> False)"

definition target :: "ref list \<Rightarrow> jsval \<Rightarrow> jsval" where
  "target pre v = (case v of Num k \<Rightarrow> Ref (pre ! nat k) | _ \<Rightarrow> Undefined)"

definition override_ok :: "ref list \<Rightarrow> world \<Rightarrow> ref \<Rightarrow> string \<times> jsval \<Rightarrow> bool" where
  "override_ok pre w obj ov =
     (case ov of (p, n) \<Rightarrow>
        (case n of
           Arr ks \<Rightarrow>
             (case props w obj p of
                Arr xs \<Rightarrow>
                  list_all2 (\<lambda>x k. is_placeholder pre x \<and> is_index (length pre) k)
                    (take (length ks) xs) ks
              | _ \<Rightarrow> False)
         | _ \<Rightarrow> is_placeholder pre (props w obj p) \<and> is_index (length pre) n))"

text \<open>
  \<open>rewired pre w w' obj ov\<close>: in \<open>w'\<close> the property named by the override references
  the pre-loaded node at the given index; for a sequence, position by position, the rest
  of the array as it was in \<open>w\<close>.
\<close>

definition rewired :: "ref list \<Rightarrow> world \<Rightarrow> world \<Rightarrow> ref \<Rightarrow> string \<times> jsval \<Rightarrow> bool" where
  "rewired pre w w' obj ov =
     (case ov of (p, n) \<Rightarrow>
        (case n of
           Arr ks \<Rightarrow>
             (case props w obj p of
                Arr xs \<Rightarrow> props w' obj p = Arr (map (target pre) ks @ drop (length ks) xs)
              | _ \<Rightarrow> False)
         | _ \<Rightarrow> props w' obj p = target pre n))"

text \<open>
  The rewirings that the overrides ask for, in the order in which \<open>loadModule\<close> makes
  them: the pairs of a placeholder and the pre-loaded node that replaces it.
\<close>

definition pair_of :: "ref list \<Rightarrow> jsval \<Rightarrow> jsval \<Rightarrow> (ref \<times> ref) list" where
  "pair_of pre v n = (case (v, n) of (Ref r, Num k) \<Rightarrow> [(r, pre ! nat k)] | _ \<Rightarrow> [])"

definition override_pairs :: "ref list \<Rightarrow> world \<Rightarrow> ref \<Rightarrow> string \<times> jsval \<Rightarrow> (ref \<times> ref) list" where
  "override_pairs pre w obj ov =
     (case ov of (p, n) \<Rightarrow>
        (case n of
           Arr ks \<Rightarrow>
             (case props w obj p of
                Arr xs \<Rightarrow> concat (map2 (pair_of pre) (take (length ks) xs) ks)
              | _ \<Rightarrow> [])
         | _ \<Rightarrow> pair_of pre (props w obj p) n))"

definition rewirings :: "ref list \<Rightarrow> world \<Rightarrow> ref \<Rightarrow> (string \<times> jsval) list \<Rightarrow> (ref \<times> ref) list" where
  "rewirings pre w obj ovs = concat (map (override_pairs pre w obj) ovs)"

text \<open>
  A node as the rewirings rename it: a placeholder becomes the node that replaces it,
  any other node stays.
\<close>

definition renamed :: "(ref \<times> ref) list \<Rightarrow> ref \<Rightarrow> ref" where
  "renamed ps c = (case map_of ps c of None \<Rightarrow> c | Some t \<Rightarrow> t)"

text \<open>The node heap after the rewirings \<open>ps\<close>, made from left to right.\<close>

definition transfers :: "(ref \<times> ref) list \<Rightarrow> (ref \<Rightarrow> NodeData) \<Rightarrow> ref \<Rightarrow> NodeData" where
  "transfers ps nh = foldl (\<lambda>h (p, t). transfer p t h) nh ps"

text \<open>The ports of a scope, none when the list is absent.\<close>

definition ports_of :: "ref list option \<Rightarrow> ref list" where
  "ports_of ps = (case ps of None \<Rightarrow> [] | Some xs \<Rightarrow> xs)"

text \<open>
  The \<open>layoutProperties\<close> written for port \<open>i\<close> of \<open>n\<close> ports at abscissa \<open>px\<close>
  in a layout of height \<open>h\<close>, with the identifier \<open>ident\<close>.
\<close>

definition port_layout :: "int \<Rightarrow> int \<Rightarrow> nat \<Rightarrow> nat \<Rightarrow> string \<Rightarrow> jsval" where
  "port_layout px h n i ident =
     Obj [(''x'', Num px), (''y'', Num (h div 2 - int n * 10 + 20 * int i + 10)), (''id'', Str ident)]"

section \<open>Concrete inputs\<close>

definition no_cascade :: "ref \<Rightarrow> world \<Rightarrow> ref list" where
  "no_cascade node w = []"

definition empty_layout :: Layout where
  "empty_layout = \<lparr>width = 0, height = 0, title_x = 0, title_y = 0, titleEnabled = None\<rparr>"

definition scope_with_nodes :: "ref list \<Rightarrow> Scope" where
  "scope_with_nodes ns =
     \<lparr>Scope.restrictedCircuitElementsUsed = [], Scope.allNodes = ns,
      Scope.verilogMetadata = None, Scope.testbenchData = None,
      Scope.layout = empty_layout, Input = None, Output = None, wires = None\<rparr>"

text \<open>
  A store. Scope \<open>0\<close> holds the given nodes. Nodes \<open>0\<close> to \<open>9\<close> are of
  type \<open>0\<close> and nodes from \<open>10\<close> on of type \<open>2\<close>; the parent of every node is the
  object \<open>100\<close>, whose \<open>objectType\<close> is \<open>'CircuitElement'\<close>.
\<close>

definition example_world :: "ref list \<Rightarrow> world" where
  "example_world ns =
     \<lparr>props = (\<lambda>r key. if r = 100 \<and> key = ''objectType''
                         then Str ''CircuitElement'' else Undefined),
      nodeHeap = (\<lambda>r. \<lparr>type = (if r < 10 then 0 else 2), parent = 100, connections = []\<rparr>),
      scopeHeap = (\<lambda>s. scope_with_nodes ns),
      globalScope = None, console = [], idCalls = 0, circuit_list = [],
      sim_clockEnabled = False\<rparr>"

text \<open>
  Collaborators that do nothing, with one constructor registered under the tags
  \<open>'AndGate'\<close> and \<open>'DflipFlop'\<close>. The constructor makes the element \<open>50\<close> with an
  empty label, facing right, with delay \<open>10\<close>, and with three fresh nodes: \<open>20\<close> and
  \<open>21\<close> in the array \<open>inp\<close> and \<open>22\<close> as \<open>output1\<close>, appended to the node set of
  the scope. Node \<open>20\<close> is connected with node \<open>21\<close> and with the node \<open>7\<close>, node
  \<open>22\<close> with the node \<open>8\<close>, in both directions.
\<close>

definition example_ctor :: ctor where
  "example_ctor px py scope params w =
     Inr (50,
       w\<lparr>props := (props w)(50 := (\<lambda>key. Undefined)
                (''objectType'' := Str ''AndGate'', ''label'' := Str [],
                 ''direction'' := Str ''RIGHT'', ''propagationDelay'' := Num 10,
                 ''inp'' := Arr [Ref 20, Ref 21], ''output1'' := Ref 22)),
         nodeHeap := (nodeHeap w)
                (20 := \<lparr>type = 0, parent = 50, connections = [7, 21]\<rparr>,
                 21 := \<lparr>type = 0, parent = 50, connections = [20]\<rparr>,
                 22 := \<lparr>type = 1, parent = 50, connections = [8]\<rparr>,
                 7 := (nodeHeap w 7)\<lparr>connections := [20]\<rparr>,
                 8 := (nodeHeap w 8)\<lparr>connections := [22]\<rparr>),
         scopeHeap := (scopeHeap w)
                (scope := (scopeHeap w scope)
                   \<lparr>Scope.allNodes := Scope.allNodes (scopeHeap w scope) @ [20, 21, 22]\<rparr>)\<rparr>)"

definition example_env :: env where
  "example_env =
     \<lparr>modules = map_of [(''AndGate'', example_ctor), (''DflipFlop'', example_ctor)],
      moduleList = [''AndGate''],
      fixDirection = (\<lambda>v. v),
      oppositeDirection = (\<lambda>v. if v = Str ''RIGHT'' then Str ''LEFT'' else Undefined),
      fixDirection_method = (\<lambda>obj w. Inr w),
      loadNode = (\<lambda>d scope w. Inr w),
      constructNodeConnections = (\<lambda>node d w. Inr w),
      loadSubCircuit = (\<lambda>d scope w. Inr w),
      updateData = (\<lambda>wire scope w. Inr w),
      cascade = no_cascade,
      generateId = (\<lambda>n. replicate (Suc n) CHR ''a''),
      newCircuit = (\<lambda>nm i isVerilog isMain w. Inr (0, w)),
      String_of = (\<lambda>v. case v of Str s \<Rightarrow> s | _ \<Rightarrow> []),
      embed = False,
      projectName = ''Untitled'',
      extern = (\<lambda>f args w. Inr w)\<rparr>"

text \<open>
  An element descriptor without a label, with an explicit delay of \<open>0\<close>, and with node
  overrides for \<open>inp\<close> and \<open>output1\<close>.
\<close>

definition and_descr :: CircuitElement where
  "and_descr =
     \<lparr>objectType = ''AndGate'', elem_x = 10, elem_y = 20, label = None,
      labelDirection = None, propagationDelay = Some 0,
      customData = Some \<lparr>constructorParamaters = None, values_ov = None,
                          nodes = Some [(''inp'', Arr [Num 0, Num 1]), (''output1'', Num 2)]\<rparr>,
      subcircuitMetadata = None\<rparr>"

text \<open>
  The store reached when the element of \<open>and_descr\<close> is constructed in scope \<open>0\<close>
  holding the pre-loaded nodes \<open>0\<close>, \<open>1\<close> and \<open>2\<close>; the store reached before its node
  overrides are applied, when the pre-loaded nodes are \<open>3\<close>, \<open>4\<close> and \<open>5\<close>; and the
  store reached when it is loaded.
\<close>

definition example_constructed :: world where
  "example_constructed =
     (case example_ctor 10 20 0 [] (example_world [0, 1, 2]) of
        Inr (obj, w0) \<Rightarrow> w0
      | Inl e \<Rightarrow> example_world [])"

definition example_built :: world where
  "example_built =
     (case construct_and_restore example_env example_ctor and_descr 0 (example_world [3, 4, 5]) of
        Inr (obj, w1) \<Rightarrow> w1
      | Inl e \<Rightarrow> example_world [])"

definition example_loaded :: world where
  "example_loaded =
     (case loadModule example_env and_descr 0 (example_world [0, 1, 2]) of
        Inr w' \<Rightarrow> w'
      | Inl e \<Rightarrow> example_world [])"

text \<open>
  A scope with two input ports \<open>60\<close> and \<open>61\<close> and one output port \<open>62\<close>, while scope
  \<open>1\<close> has the global focus; a scope descriptor with testbench data and no layout; and
  the store reached when its graph is loaded.
\<close>

definition ports_world :: world where
  "ports_world =
     (example_world [])\<lparr>scopeHeap :=
        (\<lambda>s. (scope_with_nodes [])\<lparr>Input := Some [60, 61], Output := Some [62]\<rparr>),
        globalScope := Some 1\<rparr>"

definition main_descr :: ScopeData where
  "main_descr =
     \<lparr>ScopeData.name = Some ''main'', scope_id = Num 1,
      ScopeData.restrictedCircuitElementsUsed = [], ScopeData.allNodes = [],
      ScopeData.verilogMetadata = None,
      ScopeData.testbenchData =
        Some \<lparr>testData = Str ''tests'', currentGroup = Num 0, currentCase = Num 0\<rparr>,
      ScopeData.layout = None, elements = (\<lambda>tag. None)\<rparr>"

definition ports_graph :: world where
  "ports_graph =
     (case load_graph example_env 0 main_descr ports_world of
        Inr u \<Rightarrow> u
      | Inl e \<Rightarrow> example_world [])"

text \<open>
  A scope descriptor with two elements under the tag \<open>'AndGate'\<close>: the first has the
  unregistered tag \<open>'Xor'\<close>, the second is \<open>and_descr\<close>.
\<close>

definition skip_descr :: ScopeData where
  "skip_descr =
     \<lparr>ScopeData.name = None, scope_id = Num 2,
      ScopeData.restrictedCircuitElementsUsed = [], ScopeData.allNodes = [],
      ScopeData.verilogMetadata = None, ScopeData.testbenchData = None,
      ScopeData.layout = None,
      elements = (\<lambda>tag. if tag = ''AndGate''
                         then Some [and_descr\<lparr>objectType := ''Xor''\<rparr>, and_descr] else None)\<rparr>"

text \<open>A persisted tab order and a circuit list to reorder.\<close>

definition tabs_project :: ProjectData where
  "tabs_project =
     \<lparr>projectId = None, ProjectData.name = ''p'', scopes = [], timePeriod = None,
      clockEnabled = None, orderedTabs = Some [''2'', ''1''], focussedCircuit = None\<rparr>"

definition tabs_world :: world where
  "tabs_world = (example_world [])\<lparr>circuit_list :=
      [\<lparr>tab_id = Str ''1''\<rparr>, \<lparr>tab_id = Str ''3''\<rparr>, \<lparr>tab_id = Str ''2''\<rparr>, \<lparr>tab_id = Str ''4''\<rparr>]\<rparr>"

section \<open>Basic facts\<close>

lemma bindE_Inl [simp]: "bindE (Inl e) f = Inl e"
  by (simp add: bindE_def)

lemma bindE_Inr [simp]: "bindE (Inr v) f = f v"
  by (simp add: bindE_def)

lemma bindE_assoc: "bindE (bindE m f) g = bindE m (\<lambda>v. bindE (f v) g)"
  by (cases m) simp_all

lemma bindE_eq_Inr: "bindE m f = Inr r \<longleftrightarrow> (\<exists>v. m = Inr v \<and> f v = Inr r)"
  by (cases m) auto

lemma props_set_prop:
  "props (set_prop obj key v w) o' q = (if o' = obj \<and> q = key then v else props w o' q)"
  by (simp add: set_prop_def)

lemma nodes_of_set_prop [simp]: "nodes_of (set_prop obj key v w) scope = nodes_of w scope"
  by (simp add: set_prop_def nodes_of_def)

lemma nodeHeap_set_prop [simp]: "nodeHeap (set_prop obj key v w) = nodeHeap w"
  by (simp add: set_prop_def)

text \<open>Discarding a node that is not among the first nodes leaves them in place.\<close>

lemma filter_keeps_prefix:
  assumes "take (length pre) ns = pre" and "r \<notin> set pre"
  shows "take (length pre) (filter (\<lambda>m. m \<noteq> r) ns) = pre"
proof -
  have ns: "ns = pre @ drop (length pre) ns"
    using assms(1) append_take_drop_id [of "length pre" ns] by simp
  have "filter (\<lambda>m. m \<noteq> r) pre = pre"
    using assms(2) by (auto simp: filter_id_conv)
  then have "filter (\<lambda>m. m \<noteq> r) ns = pre @ filter (\<lambda>m. m \<noteq> r) (drop (length pre) ns)"
    by (subst ns) simp
  then show ?thesis by simp
qed

lemma prefix_nth:
  assumes "take (length pre) ns = pre" and "k < length pre"
  shows "k < length ns \<and> ns ! k = pre ! k"
proof -
  have "length pre \<le> length ns"
    using arg_cong [OF assms(1), of length] by simp
  moreover have "take (length pre) ns ! k = ns ! k"
    using assms(2) by simp
  ultimately show ?thesis using assms by simp
qed

lemmas example_defs =
  example_env_def example_ctor_def and_descr_def example_world_def scope_with_nodes_def
  no_cascade_def

lemmas loadModule_defs =
  loadModule_def construct_and_restore_def constructor_params_def set_directions_and_delay_def
  restore_values_def value_overrides_def node_overrides_def attach_subcircuitMetadata_def
  rectifyObjectType_def rectify_def set_prop_def opt_str_def opt_num_def opt_val_def js_or_def
  replace_def transfer_def array_get_def array_set_def nodes_of_def set_allNodes_def Let_def

lemmas loadScope_defs =
  load_graph_def load_nodes_def update_and_repair_def update_wires_def removeBugNodes_def
  nodes_of_def

section \<open>Graph repair\<close>

text \<open>
  The loop of Graph Repair terminates: a pass through the body either shrinks the node
  set, or brings the bound to the size of the node set, or moves the index towards the
  bound.
\<close>

lemma nodes_of_set_allNodes [simp]: "nodes_of (set_allNodes scope ns w) scope = ns"
  by (simp add: nodes_of_def set_allNodes_def)

lemma length_node_delete:
  "length (nodes_of (node_delete casc scope node w) scope) \<le> length (nodes_of w scope)"
  by (simp add: node_delete_def)

lemma length_node_delete_less:
  "node \<in> set (nodes_of w scope) \<Longrightarrow>
   length (nodes_of (node_delete casc scope node w) scope) < length (nodes_of w scope)"
  unfolding node_delete_def nodes_of_set_allNodes
  by (rule length_filter_less [where x = node]) auto

termination removeBugNodes_loop
proof (relation "measures
    [\<lambda>(casc, scope, i, x, w). length (nodes_of w scope),
     \<lambda>(casc, scope, i, x, w). if x = length (nodes_of w scope) then 0 else 1,
     \<lambda>(casc, scope, i, x, w). x - i]", goal_cases)
  case 1
  show ?case by simp
next
  case (2 casc scope i x w)
  have mem: "nodes_of w scope ! i \<in> set (nodes_of w scope)"
    using 2 by simp
  show ?case
    using 2 length_node_delete_less [OF mem, of casc]
    by (auto simp: removeBugNodes_body_def Let_def)
qed

lemma removeBugNodes_body_bound:
  assumes "x = length (nodes_of w scope)"
    and "removeBugNodes_body casc scope (i, x, w) = (i', x', w')"
  shows "x' = length (nodes_of w' scope)"
  using assms by (auto simp: removeBugNodes_body_def Let_def split: if_splits)

lemma removeBugNodes_loop_returns:
  "x = length (nodes_of w scope) \<Longrightarrow> \<exists>w'. removeBugNodes_loop casc scope (i, x, w) = Inr w'"
proof (induction casc scope "(i, x, w)" arbitrary: i x w rule: removeBugNodes_loop.induct)
  case (1 casc scope i x w)
  show ?case
  proof (cases "i < x")
    case True
    obtain i' x' w' where body: "removeBugNodes_body casc scope (i, x, w) = (i', x', w')"
      by (cases "removeBugNodes_body casc scope (i, x, w)") auto
    have "x' = length (nodes_of w' scope)"
      using removeBugNodes_body_bound [OF "1.prems" body] .
    with "1.hyps" [of i' x' w'] True "1.prems" body show ?thesis
      by simp
  next
    case False
    then show ?thesis by simp
  qed
qed

text \<open>
  Graph Repair returns for every store and every cascade: the loop is total, and started
  by \<open>removeBugNodes\<close> it never reads beyond the end of the node set.
\<close>

lemma removeBugNodes_returns: "\<exists>w'. removeBugNodes casc scope w = Inr w'"
  unfolding removeBugNodes_def by (rule removeBugNodes_loop_returns) simp

text \<open>
  Without cascade, the pass keeps every node that fails the test, in order: it deletes
  only nodes that are not internal and whose parent is the generic \<open>'CircuitElement'\<close>.
\<close>

lemma isBugNode_node_delete [simp]:
  "isBugNode (node_delete casc scope node w) = isBugNode w"
  by (simp add: isBugNode_def node_delete_def set_allNodes_def fun_eq_iff)

lemma removeBugNodes_loop_keeps:
  "removeBugNodes_loop no_cascade scope (i, x, w) = Inr w' \<Longrightarrow>
   isBugNode w' = isBugNode w \<and>
   filter (\<lambda>n. \<not> isBugNode w n) (nodes_of w' scope)
     = filter (\<lambda>n. \<not> isBugNode w n) (nodes_of w scope)"
proof (induction no_cascade scope "(i, x, w)" arbitrary: i x w rule: removeBugNodes_loop.induct)
  case (1 scope i x w)
  show ?case
  proof (cases "i < x \<and> i < length (nodes_of w scope)")
    case True
    obtain i' x' w1 where body: "removeBugNodes_body no_cascade scope (i, x, w) = (i', x', w1)"
      by (cases "removeBugNodes_body no_cascade scope (i, x, w)") auto
    let ?node = "nodes_of w scope ! i"
    have w1: "w1 = (if isBugNode w ?node then node_delete no_cascade scope ?node w else w)"
      using body by (auto simp: removeBugNodes_body_def Let_def split: if_splits)
    have bug1: "isBugNode w1 = isBugNode w"
      by (simp add: w1)
    have keep1: "filter (\<lambda>n. \<not> isBugNode w n) (nodes_of w1 scope)
        = filter (\<lambda>n. \<not> isBugNode w n) (nodes_of w scope)"
      by (auto simp: w1 node_delete_def no_cascade_def intro: filter_cong)
    have run: "removeBugNodes_loop no_cascade scope (i', x', w1) = Inr w'"
      using "1.prems" True body by simp
    from "1.hyps" [OF _ _ body run] True
    have "isBugNode w' = isBugNode w1"
      and "filter (\<lambda>n. \<not> isBugNode w1 n) (nodes_of w' scope)
        = filter (\<lambda>n. \<not> isBugNode w1 n) (nodes_of w1 scope)"
      by simp_all
    then show ?thesis
      by (simp add: bug1 keep1)
  next
    case False
    with "1.prems" show ?thesis
      by (auto split: if_splits)
  qed
qed

lemma removeBugNodes_keeps_valid_nodes:
  assumes "removeBugNodes no_cascade scope w = Inr w'"
  shows "filter (\<lambda>n. \<not> isBugNode w n) (nodes_of w' scope)
           = filter (\<lambda>n. \<not> isBugNode w n) (nodes_of w scope)"
  using removeBugNodes_loop_keeps [OF assms [unfolded removeBugNodes_def]] by simp

text \<open>
  C3. After Graph Repair no node should remain that is not internal and whose parent is
  the generic \<open>'CircuitElement'\<close>. On a node set of two such nodes the pass deletes the
  first, resumes at index \<open>1\<close> of the node set that now has one node, and ends: the
  second node remains.
\<close>

theorem removeBugNodes_leaves_bug_node:
  "(case removeBugNodes no_cascade 0 (example_world [0, 1]) of
      Inl e \<Rightarrow> False
    | Inr w' \<Rightarrow> nodes_of w' 0 = [1] \<and> isBugNode w' 1)"
  by (simp add: removeBugNodes_def removeBugNodes_body_def example_world_def
      scope_with_nodes_def nodes_of_def node_delete_def set_allNodes_def isBugNode_def
      no_cascade_def)

text \<open>
  C4. The scan of Graph Repair should restart from the beginning when the size of the node
  set changes, and the pass should stop when a full scan deletes nothing. On the node set
  of two deletable nodes, the pass through the body at index \<open>0\<close> deletes the first node
  and leaves the loop at index \<open>1\<close> with bound \<open>1\<close>: the scan resumes after the
  beginning, and the loop ends there although the node now at index \<open>0\<close> is deletable
  and was never scanned.
\<close>

theorem removeBugNodes_restarts_at_one:
  "removeBugNodes_body no_cascade 0 (0, 2, example_world [0, 1])
     = (1, 1, set_allNodes 0 [1] (example_world [0, 1]))
   \<and> isBugNode (example_world [0, 1]) 1
   \<and> removeBugNodes_loop no_cascade 0 (1, 1, set_allNodes 0 [1] (example_world [0, 1]))
     = Inr (set_allNodes 0 [1] (example_world [0, 1]))"
  by (simp add: removeBugNodes_body_def example_world_def
      scope_with_nodes_def nodes_of_def node_delete_def set_allNodes_def isBugNode_def
      no_cascade_def)

section \<open>Loading one element\<close>

lemma replace_props:
  "replace scope v n w = Inr (r, w') \<Longrightarrow> props w' = props w"
  by (auto simp: replace_def Let_def set_allNodes_def split: jsval.splits if_splits)

lemma rewire_array_frame:
  "rewire_array scope obj p i ks w = Inr w' \<Longrightarrow> o' \<noteq> obj \<or> q \<noteq> p \<Longrightarrow>
   props w' o' q = props w o' q"
proof (induction ks arbitrary: i w)
  case Nil
  then show ?case by simp
next
  case (Cons k ks)
  from Cons.prems(1) obtain xs r w1 where
    xs: "props w obj p = Arr xs"
    and rep: "replace scope (array_get xs i) k w = Inr (r, w1)"
    and run: "rewire_array scope obj p (i + 1) ks (set_prop obj p (Arr (array_set xs i r)) w1) = Inr w'"
    by (auto simp: bindE_eq_Inr split: jsval.splits)
  have "props w' o' q = props (set_prop obj p (Arr (array_set xs i r)) w1) o' q"
    by (rule Cons.IH [OF run Cons.prems(2)])
  also have "\<dots> = props w o' q"
    using Cons.prems(2) replace_props [OF rep] by (auto simp: props_set_prop)
  finally show ?case .
qed

lemma rewire_nodes_frame:
  "rewire_nodes scope obj ovs w = Inr w' \<Longrightarrow> o' \<noteq> obj \<or> q \<notin> fst ` set ovs \<Longrightarrow>
   props w' o' q = props w o' q"
proof (induction ovs arbitrary: w)
  case Nil
  then show ?case by simp
next
  case (Cons ov ovs)
  obtain p n where ov: "ov = (p, n)" by (cases ov)
  from Cons.prems(1) obtain w1 where
    one: "(case n of
             Arr ks \<Rightarrow> rewire_array scope obj p 0 ks w
           | _ \<Rightarrow> bindE (replace scope (props w obj p) n w)
                    (\<lambda>(r, w'). Inr (set_prop obj p r w'))) = Inr w1"
    and run: "rewire_nodes scope obj ovs w1 = Inr w'"
    by (auto simp: ov bindE_eq_Inr)
  have a: "o' \<noteq> obj \<or> q \<noteq> p" and b: "o' \<noteq> obj \<or> q \<notin> fst ` set ovs"
    using Cons.prems(2) by (auto simp: ov)
  have "props w1 o' q = props w o' q"
  proof (cases "\<exists>ks. n = Arr ks")
    case True
    then obtain ks where n: "n = Arr ks" by blast
    from one have "rewire_array scope obj p 0 ks w = Inr w1" by (simp add: n)
    from rewire_array_frame [OF this a] show ?thesis .
  next
    case False
    with one obtain r w2 where rep: "replace scope (props w obj p) n w = Inr (r, w2)"
      and w1: "w1 = set_prop obj p r w2"
      by (cases n) (auto simp: bindE_eq_Inr)
    show ?thesis
      unfolding w1 using a replace_props [OF rep] by (auto simp: props_set_prop)
  qed
  with Cons.IH [OF run b] show ?case by simp
qed

lemma restore_values_frame:
  assumes "q \<notin> fst ` set (value_overrides d)"
  shows "props (restore_values d obj w) o' q = props w o' q"
proof -
  have "q \<notin> fst ` set vs \<Longrightarrow>
        props (foldl (\<lambda>u (prop, v). set_prop obj prop v u) w vs) o' q = props w o' q" for vs
    by (induction vs arbitrary: w) (auto simp: props_set_prop)
  from this [OF assms] show ?thesis by (simp add: restore_values_def)
qed

lemma attach_subcircuitMetadata_frame:
  "q \<noteq> ''subcircuitMetadata'' \<Longrightarrow> props (attach_subcircuitMetadata d obj w) o' q = props w o' q"
  by (simp add: attach_subcircuitMetadata_def props_set_prop)

text \<open>
  A property that neither the method \<open>fixDirection\<close> nor an override writes has, after
  \<open>loadModule\<close>, the value it had after the three assignments.
\<close>

lemma loadModule_frame:
  assumes mod: "modules E (rectifyObjectType (objectType d)) = Some C"
    and ctor: "C (elem_x d) (elem_y d) scope (constructor_params d) w = Inr (obj, w0)"
    and run: "loadModule E d scope w = Inr w'"
    and fixd: "\<forall>u u'. fixDirection_method E obj u = Inr u' \<longrightarrow> props u' obj q = props u obj q"
    and vals: "q \<notin> fst ` set (value_overrides d)"
    and ovs: "q \<notin> fst ` set (node_overrides d)"
    and meta: "q \<noteq> ''subcircuitMetadata''"
  shows "props w' obj q = props (set_directions_and_delay E d obj w0) obj q"
proof -
  from run mod ctor obtain w2 w3 where
    f: "fixDirection_method E obj (set_directions_and_delay E d obj w0) = Inr w2"
    and r: "rewire_nodes scope obj (node_overrides d) (restore_values d obj w2) = Inr w3"
    and w': "w' = attach_subcircuitMetadata d obj w3"
    by (auto simp: loadModule_def construct_and_restore_def bindE_eq_Inr)
  have "props w' obj q = props w3 obj q"
    unfolding w' by (rule attach_subcircuitMetadata_frame [OF meta])
  also have "\<dots> = props (restore_values d obj w2) obj q"
    by (rule rewire_nodes_frame [OF r]) (simp add: ovs)
  also have "\<dots> = props w2 obj q"
    by (rule restore_values_frame [OF vals])
  also have "\<dots> = props (set_directions_and_delay E d obj w0) obj q"
    using fixd f by blast
  finally show ?thesis .
qed

lemma example_loads:
  "loadModule example_env and_descr 0 (example_world [0, 1, 2]) = Inr example_loaded"
  by (simp add: example_loaded_def example_defs loadModule_defs)

text \<open>
  C10, as amended. \<open>loadModule\<close> assigns the label field of the descriptor to the element
  in every case: the explicit label when the descriptor carries one, and \<open>undefined\<close>
  when it carries none. (The statement concerns an element whose label is written by
  nothing else: by no override, and not by the method \<open>fixDirection\<close>.)
\<close>

theorem loadModule_assigns_label:
  assumes "modules E (rectifyObjectType (objectType d)) = Some C"
    and "C (elem_x d) (elem_y d) scope (constructor_params d) w = Inr (obj, w0)"
    and "loadModule E d scope w = Inr w'"
    and "\<forall>u u'. fixDirection_method E obj u = Inr u' \<longrightarrow> props u' obj ''label'' = props u obj ''label''"
    and "''label'' \<notin> fst ` set (value_overrides d)"
    and "''label'' \<notin> fst ` set (node_overrides d)"
  shows "props w' obj ''label'' = (case label d of Some l \<Rightarrow> Str l | None \<Rightarrow> Undefined)"
proof -
  have "props w' obj ''label'' = props (set_directions_and_delay E d obj w0) obj ''label''"
    by (rule loadModule_frame [OF assms]) simp
  then show ?thesis
    by (simp add: set_directions_and_delay_def Let_def props_set_prop opt_str_def)
qed

theorem loadModule_assigns_label_witness:
  "modules example_env (rectifyObjectType (objectType and_descr)) = Some example_ctor
   \<and> example_ctor (elem_x and_descr) (elem_y and_descr) 0 (constructor_params and_descr)
         (example_world [0, 1, 2]) = Inr (50, example_constructed)
   \<and> loadModule example_env and_descr 0 (example_world [0, 1, 2]) = Inr example_loaded
   \<and> label and_descr = None
   \<and> props example_loaded 50 ''label'' = Undefined"
proof -
  have h1: "modules example_env (rectifyObjectType (objectType and_descr)) = Some example_ctor"
    by (simp add: example_defs rectifyObjectType_def rectify_def)
  have h2: "example_ctor (elem_x and_descr) (elem_y and_descr) 0 (constructor_params and_descr)
         (example_world [0, 1, 2]) = Inr (50, example_constructed)"
    by (simp add: example_constructed_def example_defs constructor_params_def)
  have h4: "\<forall>u u'. fixDirection_method example_env 50 u = Inr u' \<longrightarrow>
              props u' 50 ''label'' = props u 50 ''label''"
    by (simp add: example_env_def)
  have h5: "''label'' \<notin> fst ` set (value_overrides and_descr)"
    and h6: "''label'' \<notin> fst ` set (node_overrides and_descr)"
    by (simp_all add: value_overrides_def node_overrides_def and_descr_def)
  have none: "label and_descr = None" by (simp add: and_descr_def)
  from loadModule_assigns_label [OF h1 h2 example_loads h4 h5 h6]
  have "props example_loaded 50 ''label'' = Undefined"
    by (simp add: none)
  with h1 h2 example_loads none show ?thesis by blast
qed

text \<open>
  The claim C10 as first stated, that the label is left as constructed when the descriptor
  carries none, fails: the constructor sets the empty label and \<open>loadModule\<close> replaces
  it by \<open>undefined\<close>.
\<close>

theorem loadModule_label_counterexample:
  "label and_descr = None
   \<and> (case example_ctor 10 20 0 [] (example_world [0, 1, 2]) of
        Inl e \<Rightarrow> False
      | Inr (obj, w0) \<Rightarrow>
          (case loadModule example_env and_descr 0 (example_world [0, 1, 2]) of
             Inl e \<Rightarrow> False
           | Inr w' \<Rightarrow>
               props w0 obj ''label'' = Str [] \<and> props w' obj ''label'' = Undefined
               \<and> props w' obj ''label'' \<noteq> props w0 obj ''label''))"
  by (simp add: example_defs loadModule_defs)

text \<open>
  What \<open>loadModule\<close> does with the delay: an explicit delay other than \<open>0\<close> is set; an
  explicit delay of \<open>0\<close> is treated as absent.
\<close>

lemma loadModule_sets_delay:
  assumes "modules E (rectifyObjectType (objectType d)) = Some C"
    and "C (elem_x d) (elem_y d) scope (constructor_params d) w = Inr (obj, w0)"
    and "loadModule E d scope w = Inr w'"
    and "\<forall>u u'. fixDirection_method E obj u = Inr u' \<longrightarrow>
           props u' obj ''propagationDelay'' = props u obj ''propagationDelay''"
    and "''propagationDelay'' \<notin> fst ` set (value_overrides d)"
    and "''propagationDelay'' \<notin> fst ` set (node_overrides d)"
  shows "props w' obj ''propagationDelay'' =
           (case propagationDelay d of
              Some n \<Rightarrow> if n \<noteq> 0 then Num n else props w0 obj ''propagationDelay''
            | None \<Rightarrow> props w0 obj ''propagationDelay'')"
proof -
  have "props w' obj ''propagationDelay''
      = props (set_directions_and_delay E d obj w0) obj ''propagationDelay''"
    by (rule loadModule_frame [OF assms]) simp
  then show ?thesis
    by (simp add: set_directions_and_delay_def Let_def props_set_prop opt_num_def js_or_def
        split: option.splits)
qed

text \<open>
  C9. The explicit delay of the descriptor should be set whenever it is present. The
  descriptor \<open>and_descr\<close> carries the explicit delay \<open>0\<close>; the element is constructed
  with the default \<open>10\<close>, and after \<open>loadModule\<close> its delay is \<open>10\<close>.
\<close>

theorem loadModule_drops_zero_delay:
  "propagationDelay and_descr = Some 0
   \<and> (case loadModule example_env and_descr 0 (example_world [0, 1, 2]) of
        Inl e \<Rightarrow> False
      | Inr w' \<Rightarrow> props w' 50 ''propagationDelay'' = Num 10)"
  by (simp add: example_defs loadModule_defs)

text \<open>
  C7. A descriptor with a legacy tag of the rectification table loads as the same
  descriptor with the current tag: the same constructor is resolved, and when there is
  one the two calls of \<open>loadModule\<close> give the same result. In every case the two results
  agree on everything but the diagnostics, which name the tag as the descriptor has it.
\<close>

theorem rectified_tag_loads_as_current:
  assumes "(legacy, current) \<in> set rectify"
  shows "modules E (rectifyObjectType legacy) = modules E (rectifyObjectType current)
     \<and> (modules E current \<noteq> None \<longrightarrow>
          loadModule E (d\<lparr>objectType := legacy\<rparr>) scope w
            = loadModule E (d\<lparr>objectType := current\<rparr>) scope w)
     \<and> map_sum id (\<lambda>u. u\<lparr>console := []\<rparr>) (loadModule E (d\<lparr>objectType := legacy\<rparr>) scope w)
         = map_sum id (\<lambda>u. u\<lparr>console := []\<rparr>) (loadModule E (d\<lparr>objectType := current\<rparr>) scope w)"
proof -
  have tags: "rectifyObjectType legacy = current" "rectifyObjectType current = current"
    using assms by (auto simp: rectify_def rectifyObjectType_def)
  have same: "construct_and_restore E C (d\<lparr>objectType := t\<rparr>) = construct_and_restore E C d"
    for C t
    by (simp add: construct_and_restore_def constructor_params_def set_directions_and_delay_def
        restore_values_def value_overrides_def fun_eq_iff)
  have ovs: "node_overrides (d\<lparr>objectType := t\<rparr>) = node_overrides d" for t
    by (simp add: node_overrides_def)
  have meta: "attach_subcircuitMetadata (d\<lparr>objectType := t\<rparr>) = attach_subcircuitMetadata d" for t
    by (simp add: attach_subcircuitMetadata_def fun_eq_iff)
  show ?thesis
  proof (cases "modules E current")
    case None
    then show ?thesis by (simp add: tags loadModule_def report_not_found_def)
  next
    case (Some C)
    have "loadModule E (d\<lparr>objectType := legacy\<rparr>) scope w
            = loadModule E (d\<lparr>objectType := current\<rparr>) scope w"
      by (simp add: loadModule_def tags Some same ovs meta)
    then show ?thesis by (simp add: tags)
  qed
qed

theorem rectified_tag_loads_as_current_witness:
  "(''FlipFlop'', ''DflipFlop'') \<in> set rectify
   \<and> modules example_env ''DflipFlop'' \<noteq> None
   \<and> loadModule example_env (and_descr\<lparr>objectType := ''FlipFlop''\<rparr>) 0 (example_world [0, 1, 2])
       = loadModule example_env (and_descr\<lparr>objectType := ''DflipFlop''\<rparr>) 0 (example_world [0, 1, 2])"
  using rectified_tag_loads_as_current
    [of "''FlipFlop''" "''DflipFlop''" example_env and_descr 0 "example_world [0, 1, 2]"]
  by (simp add: rectify_def example_env_def)

lemma loadModules_append:
  "loadModules E (ds1 @ ds2) scope w = bindE (loadModules E ds1 scope w) (loadModules E ds2 scope)"
proof (induction ds1 arbitrary: w)
  case Nil
  show ?case by simp
next
  case (Cons d ds1)
  show ?case
    by (cases "loadModule E d scope w") (simp_all add: Cons.IH)
qed

section \<open>Node rewiring\<close>

text \<open>
  The connections after a sequence of rewirings, when no placeholder is replaced twice
  and no node that replaces a placeholder is a placeholder itself.
\<close>

lemma transfer_conns:
  "set (connections (transfer p t h m))
     = (\<lambda>c. if c = p then t else c) `
         (if m = t then set (connections (h m)) \<union> set (connections (h p))
          else if m = p then {} else set (connections (h m)))"
  by (simp add: transfer_def Let_def)

lemma renamed_Cons:
  "renamed ((r, t) # ps) c = (if c = r then t else renamed ps c)"
  by (simp add: renamed_def)

lemma renamed_other: "c \<notin> fst ` set ps \<Longrightarrow> renamed ps c = c"
  by (simp add: renamed_def map_of_eq_None_iff [THEN iffD2])

lemma renamed_after_step:
  assumes "t \<notin> fst ` set ps"
  shows "renamed ps (if c = r then t else c) = renamed ((r, t) # ps) c"
  using renamed_other [OF assms] by (simp add: renamed_Cons)

lemma renamed_pair:
  assumes "distinct (map fst ps)" and "(r, t) \<in> set ps"
  shows "renamed ps r = t"
  using assms by (simp add: renamed_def)

lemma renamed_not_placeholder:
  assumes "snd ` set ps \<inter> fst ` set ps = {}"
  shows "renamed ps c \<notin> fst ` set ps"
proof (cases "map_of ps c")
  case None
  then have "c \<notin> fst ` set ps" by (simp add: map_of_eq_None_iff)
  with None show ?thesis by (simp add: renamed_def)
next
  case (Some t)
  then have "(c, t) \<in> set ps" by (rule map_of_SomeD)
  then have "t \<in> snd ` set ps" by force
  with assms have "t \<notin> fst ` set ps" by blast
  with Some show ?thesis by (simp add: renamed_def)
qed

lemma transfers_simps [simp]:
  "transfers [] nh = nh"
  "transfers ((p, t) # ps) nh = transfers ps (transfer p t nh)"
  "transfers (ps @ qs) nh = transfers qs (transfers ps nh)"
  by (simp_all add: transfers_def)

lemma transfers_conns:
  assumes "distinct (map fst ps)" and "snd ` set ps \<inter> fst ` set ps = {}"
  shows "set (connections (transfers ps h m))
     = (if m \<in> fst ` set ps then {}
        else renamed ps ` (set (connections (h m))
                            \<union> (\<Union>r\<in>{r. (r, m) \<in> set ps}. set (connections (h r)))))"
  using assms
proof (induction ps arbitrary: h m)
  case Nil
  show ?case by (simp add: renamed_def)
next
  case (Cons a ps)
  obtain r t where a: "a = (r, t)" by (cases a)
  define F where "F = (\<lambda>c. if c = r then t else c)"
  let ?h1 = "transfer r t h"
  have dist: "distinct (map fst ps)" and r_new: "r \<notin> fst ` set ps"
    using Cons.prems(1) by (auto simp: a)
  have disj: "snd ` set ps \<inter> fst ` set ps = {}"
    using Cons.prems(2) by (auto simp: a)
  have t_tgt: "t \<notin> fst ` set ps" and t_r: "t \<noteq> r"
    using Cons.prems(2) by (auto simp: a)
  have r_no_tgt: "r \<notin> snd ` set ps"
    using Cons.prems(2) by (auto simp: a)
  have ren: "renamed ps (F c) = renamed (a # ps) c" for c
    unfolding a F_def by (rule renamed_after_step [OF t_tgt])
  note ih = Cons.IH [OF dist disj, of ?h1 m]
  have step: "transfers (a # ps) h = transfers ps ?h1"
    by (simp add: a)
  have ih': "set (connections (transfers ps ?h1 m))
      = renamed ps ` (set (connections (?h1 m))
                       \<union> (\<Union>r'\<in>{r'. (r', m) \<in> set ps}. set (connections (?h1 r'))))"
    if "m \<notin> fst ` set ps"
    by (simp only: ih that if_False)
  show ?case
  proof (cases "m = r \<or> m \<in> fst ` set ps")
    case True
    show ?thesis
    proof (cases "m \<in> fst ` set ps")
      case True
      then have "set (connections (transfers ps ?h1 m)) = {}"
        by (simp only: ih if_True)
      then show ?thesis
        unfolding step using True by (simp add: a)
    next
      case False
      with \<open>m = r \<or> m \<in> fst ` set ps\<close> have m: "m = r" by simp
      have none: "{r'. (r', m) \<in> set ps} = {}"
        using r_no_tgt unfolding m by force
      have empty: "set (connections (?h1 m)) = {}"
        unfolding m transfer_conns using t_r by simp
      have "set (connections (transfers ps ?h1 m)) = {}"
        unfolding ih' [OF False] none empty by simp
      then show ?thesis
        unfolding step by (simp add: a m)
    qed
  next
    case False
    then have m_r: "m \<noteq> r" and m_ps: "m \<notin> fst ` set ps" by simp_all
    have own: "set (connections (?h1 m))
        = F ` (set (connections (h m)) \<union> (if m = t then set (connections (h r)) else {}))"
      unfolding transfer_conns F_def using m_r by simp
    have other: "set (connections (?h1 r')) = F ` set (connections (h r'))"
      if "(r', m) \<in> set ps" for r'
    proof -
      from that have "r' \<in> fst ` set ps" by force
      with r_new t_tgt have "r' \<noteq> r" "r' \<noteq> t" by auto
      then show ?thesis unfolding transfer_conns F_def by simp
    qed
    have others: "(\<Union>r'\<in>{r'. (r', m) \<in> set ps}. set (connections (?h1 r')))
        = F ` (\<Union>r'\<in>{r'. (r', m) \<in> set ps}. set (connections (h r')))"
      unfolding image_UN by (rule SUP_cong [OF refl]) (simp add: other)
    have absorbed: "{r'. (r', m) \<in> set (a # ps)}
        = (if m = t then {r} else {}) \<union> {r'. (r', m) \<in> set ps}"
      by (auto simp: a)
    have "set (connections (transfers (a # ps) h m))
        = renamed ps ` (set (connections (?h1 m))
                         \<union> (\<Union>r'\<in>{r'. (r', m) \<in> set ps}. set (connections (?h1 r'))))"
      unfolding step by (rule ih' [OF m_ps])
    also have "\<dots> = renamed ps ` F ` (set (connections (h m))
                         \<union> (if m = t then set (connections (h r)) else {})
                         \<union> (\<Union>r'\<in>{r'. (r', m) \<in> set ps}. set (connections (h r'))))"
      unfolding own others by (simp only: image_Un)
    also have "\<dots> = renamed (a # ps) ` (set (connections (h m))
                         \<union> (if m = t then set (connections (h r)) else {})
                         \<union> (\<Union>r'\<in>{r'. (r', m) \<in> set ps}. set (connections (h r'))))"
      by (simp add: image_image ren)
    also have "\<dots> = renamed (a # ps) ` (set (connections (h m))
                         \<union> (\<Union>r'\<in>{r'. (r', m) \<in> set (a # ps)}. set (connections (h r'))))"
      unfolding absorbed by (auto simp: Un_assoc)
    finally show ?thesis
      using m_r m_ps by (simp add: a)
  qed
qed

text \<open>
  One call of \<open>replace\<close> on a placeholder and an index into the pre-loaded nodes, then
  the loop over the positions of a sequence, one override, and all overrides.
\<close>

lemma is_placeholderE:
  assumes "is_placeholder pre v"
  obtains r where "v = Ref r" "r \<notin> set pre"
  using assms by (cases v) (auto simp: is_placeholder_def)

lemma is_indexE:
  assumes "is_index N v"
  obtains k where "v = Num k" "0 \<le> k" "nat k < N"
  using assms by (cases v) (auto simp: is_index_def)

lemma replace_step:
  assumes pre: "take (length pre) (nodes_of w scope) = pre"
    and ph: "is_placeholder pre v"
    and ix: "is_index (length pre) n"
  shows "\<exists>w'. replace scope v n w = Inr (target pre n, w')
           \<and> props w' = props w
           \<and> take (length pre) (nodes_of w' scope) = pre
           \<and> nodes_of w' scope
               = filter (\<lambda>m. m \<notin> fst ` set (pair_of pre v n)) (nodes_of w scope)
           \<and> nodeHeap w' = transfers (pair_of pre v n) (nodeHeap w)"
proof -
  from ph obtain r where v: "v = Ref r" and fresh: "r \<notin> set pre"
    by (rule is_placeholderE)
  from ix obtain k where n: "n = Num k" and k: "0 \<le> k" "nat k < length pre"
    by (rule is_indexE)
  let ?ns = "filter (\<lambda>m. m \<noteq> r) (nodes_of w scope)"
  have keep: "take (length pre) ?ns = pre"
    using filter_keeps_prefix [OF pre fresh] .
  have nth: "nat k < length ?ns \<and> ?ns ! nat k = pre ! nat k"
    using prefix_nth [OF keep k(2)] .
  show ?thesis
    unfolding v n using keep nth k(1)
    by (simp add: replace_def Let_def set_allNodes_def nodes_of_def target_def pair_of_def)
qed

lemma filter_placeholders_append:
  "filter (\<lambda>m. m \<notin> fst ` set qs) (filter (\<lambda>m. m \<notin> fst ` set ps) ns)
     = filter (\<lambda>m. m \<notin> fst ` set (ps @ qs)) ns"
  by (induction ns) auto

lemma rewire_array_correct:
  assumes "take (length pre) (nodes_of w scope) = pre"
    and "props w obj p = Arr xs"
    and "list_all2 (\<lambda>x k. is_placeholder pre x \<and> is_index (length pre) k)
           (take (length ks) (drop i xs)) ks"
    and "ps = concat (map2 (pair_of pre) (take (length ks) (drop i xs)) ks)"
  shows "\<exists>w'. rewire_array scope obj p i ks w = Inr w'
     \<and> props w' = (props w)(obj := (props w obj)
          (p := Arr (take i xs @ map (target pre) ks @ drop (i + length ks) xs)))
     \<and> take (length pre) (nodes_of w' scope) = pre
     \<and> nodes_of w' scope = filter (\<lambda>m. m \<notin> fst ` set ps) (nodes_of w scope)
     \<and> nodeHeap w' = transfers ps (nodeHeap w)"
  using assms
proof (induction ks arbitrary: i w xs ps)
  case Nil
  show ?case
  proof (intro exI conjI)
    show "rewire_array scope obj p i [] w = Inr w" by simp
    show "props w = (props w)(obj := (props w obj)
          (p := Arr (take i xs @ map (target pre) [] @ drop (i + length []) xs)))"
      using Nil.prems(2) by (auto simp: fun_eq_iff)
    show "take (length pre) (nodes_of w scope) = pre" by (rule Nil.prems(1))
  qed (simp_all add: Nil.prems(4))
next
  case (Cons k ks)
  have len: "length (take (length (k # ks)) (drop i xs)) = length (k # ks)"
    using list_all2_lengthD [OF Cons.prems(3)] .
  then have i: "i < length xs" by simp
  have split: "take (length (k # ks)) (drop i xs) = xs ! i # take (length ks) (drop (i + 1) xs)"
    using Cons_nth_drop_Suc [OF i] by (simp add: take_Suc_Cons [symmetric] del: take_Suc_Cons)
  have ph: "is_placeholder pre (xs ! i)" and ix: "is_index (length pre) k"
    and rest: "list_all2 (\<lambda>x k. is_placeholder pre x \<and> is_index (length pre) k)
                 (take (length ks) (drop (i + 1) xs)) ks"
    using Cons.prems(3) unfolding split by simp_all
  let ?ps' = "concat (map2 (pair_of pre) (take (length ks) (drop (i + 1) xs)) ks)"
  have ps: "ps = pair_of pre (xs ! i) k @ ?ps'"
    unfolding Cons.prems(4) split by simp
  from replace_step [OF Cons.prems(1) ph ix]
  obtain w1 where rep: "replace scope (xs ! i) k w = Inr (target pre k, w1)"
    and props1: "props w1 = props w"
    and pre1: "take (length pre) (nodes_of w1 scope) = pre"
    and nodes1: "nodes_of w1 scope
               = filter (\<lambda>m. m \<notin> fst ` set (pair_of pre (xs ! i) k)) (nodes_of w scope)"
    and heap1: "nodeHeap w1 = transfers (pair_of pre (xs ! i) k) (nodeHeap w)"
    by blast
  let ?xs = "xs[i := target pre k]"
  let ?w2 = "set_prop obj p (Arr ?xs) w1"
  have step: "rewire_array scope obj p i (k # ks) w = rewire_array scope obj p (i + 1) ks ?w2"
    using Cons.prems(2) i rep by (simp add: array_get_def array_set_def)
  have a1: "take (length pre) (nodes_of ?w2 scope) = pre" using pre1 by simp
  have a2: "props ?w2 obj p = Arr ?xs" by (simp add: props_set_prop)
  have a3: "list_all2 (\<lambda>x k. is_placeholder pre x \<and> is_index (length pre) k)
                 (take (length ks) (drop (i + 1) ?xs)) ks"
    using rest by simp
  have a4: "?ps' = concat (map2 (pair_of pre) (take (length ks) (drop (i + 1) ?xs)) ks)"
    by simp
  from Cons.IH [OF a1 a2 a3 a4]
  obtain w' where run: "rewire_array scope obj p (i + 1) ks ?w2 = Inr w'"
    and props': "props w' = (props ?w2)(obj := (props ?w2 obj)
          (p := Arr (take (i + 1) ?xs @ map (target pre) ks @ drop ((i + 1) + length ks) ?xs)))"
    and pre': "take (length pre) (nodes_of w' scope) = pre"
    and nodes': "nodes_of w' scope = filter (\<lambda>m. m \<notin> fst ` set ?ps') (nodes_of ?w2 scope)"
    and heap': "nodeHeap w' = transfers ?ps' (nodeHeap ?w2)"
    by blast
  have lists: "take (i + 1) ?xs @ map (target pre) ks @ drop ((i + 1) + length ks) ?xs
      = take i xs @ map (target pre) (k # ks) @ drop (i + length (k # ks)) xs"
    using i by (simp add: take_Suc_conv_app_nth)
  have p_eq: "props w' = (props w)(obj := (props w obj)
          (p := Arr (take i xs @ map (target pre) (k # ks) @ drop (i + length (k # ks)) xs)))"
    unfolding props' lists by (auto simp: fun_eq_iff props_set_prop props1)
  have n_eq: "nodes_of w' scope = filter (\<lambda>m. m \<notin> fst ` set ps) (nodes_of w scope)"
    unfolding nodes' ps nodes_of_set_prop nodes1 by (rule filter_placeholders_append)
  have h_eq: "nodeHeap w' = transfers ps (nodeHeap w)"
    unfolding heap' ps by (simp add: heap1)
  show ?case
    unfolding step using run p_eq pre' n_eq h_eq by blast
qed

lemma override_ok_cong:
  "props w1 obj p = props w obj p \<Longrightarrow> override_ok pre w1 obj (p, n) = override_ok pre w obj (p, n)"
  by (cases n) (simp_all add: override_ok_def)

lemma override_pairs_cong:
  "props w1 obj p = props w obj p \<Longrightarrow>
   override_pairs pre w1 obj (p, n) = override_pairs pre w obj (p, n)"
  by (cases n) (simp_all add: override_pairs_def)

lemma rewired_cong:
  "props w obj p = props v obj p \<Longrightarrow> props w' obj p = props v' obj p \<Longrightarrow>
   rewired pre w w' obj (p, n) = rewired pre v v' obj (p, n)"
  by (cases n; cases "props v obj p") (simp_all add: rewired_def)

lemma rewire_one:
  assumes pre: "take (length pre) (nodes_of w scope) = pre"
    and ok: "override_ok pre w obj (p, n)"
  shows "\<exists>w1. (case n of
                 Arr ks \<Rightarrow> rewire_array scope obj p 0 ks w
               | _ \<Rightarrow> bindE (replace scope (props w obj p) n w)
                        (\<lambda>(r, w'). Inr (set_prop obj p r w'))) = Inr w1
      \<and> (\<forall>o' q. o' \<noteq> obj \<or> q \<noteq> p \<longrightarrow> props w1 o' q = props w o' q)
      \<and> take (length pre) (nodes_of w1 scope) = pre
      \<and> rewired pre w w1 obj (p, n)
      \<and> nodes_of w1 scope
          = filter (\<lambda>m. m \<notin> fst ` set (override_pairs pre w obj (p, n))) (nodes_of w scope)
      \<and> nodeHeap w1 = transfers (override_pairs pre w obj (p, n)) (nodeHeap w)"
proof (cases "\<exists>ks. n = Arr ks")
  case True
  then obtain ks where n: "n = Arr ks" by blast
  from ok n obtain xs where xs: "props w obj p = Arr xs"
    and all: "list_all2 (\<lambda>x k. is_placeholder pre x \<and> is_index (length pre) k)
                (take (length ks) (drop 0 xs)) ks"
    by (auto simp: override_ok_def split: jsval.splits)
  have ps: "override_pairs pre w obj (p, n)
      = concat (map2 (pair_of pre) (take (length ks) (drop 0 xs)) ks)"
    by (simp add: override_pairs_def n xs)
  from rewire_array_correct [OF pre xs all ps]
  obtain w1 where run: "rewire_array scope obj p 0 ks w = Inr w1"
    and p1: "props w1 = (props w)(obj := (props w obj)
          (p := Arr (take 0 xs @ map (target pre) ks @ drop (0 + length ks) xs)))"
    and pre1: "take (length pre) (nodes_of w1 scope) = pre"
    and nodes1: "nodes_of w1 scope
          = filter (\<lambda>m. m \<notin> fst ` set (override_pairs pre w obj (p, n))) (nodes_of w scope)"
    and heap1: "nodeHeap w1 = transfers (override_pairs pre w obj (p, n)) (nodeHeap w)"
    by blast
  have "rewired pre w w1 obj (p, n)"
    by (simp add: rewired_def n xs p1)
  then show ?thesis
    using run pre1 nodes1 heap1 by (auto simp: n p1)
next
  case False
  with ok have ph: "is_placeholder pre (props w obj p)" and ix: "is_index (length pre) n"
    by (auto simp: override_ok_def split: jsval.splits)
  have ps: "override_pairs pre w obj (p, n) = pair_of pre (props w obj p) n"
    using False by (cases n) (simp_all add: override_pairs_def)
  from replace_step [OF pre ph ix]
  obtain w' where rep: "replace scope (props w obj p) n w = Inr (target pre n, w')"
    and props': "props w' = props w"
    and pre': "take (length pre) (nodes_of w' scope) = pre"
    and nodes': "nodes_of w' scope
          = filter (\<lambda>m. m \<notin> fst ` set (override_pairs pre w obj (p, n))) (nodes_of w scope)"
    and heap': "nodeHeap w' = transfers (override_pairs pre w obj (p, n)) (nodeHeap w)"
    unfolding ps by blast
  let ?w1 = "set_prop obj p (target pre n) w'"
  have run: "(case n of
                 Arr ks \<Rightarrow> rewire_array scope obj p 0 ks w
               | _ \<Rightarrow> bindE (replace scope (props w obj p) n w)
                        (\<lambda>(r, w'). Inr (set_prop obj p r w'))) = Inr ?w1"
    using False rep by (cases n) simp_all
  have "rewired pre w ?w1 obj (p, n)"
    using False by (cases n) (simp_all add: rewired_def props_set_prop)
  then show ?thesis
    unfolding run using pre' nodes' heap' by (auto simp: props_set_prop props')
qed

lemma rewirings_cong:
  assumes "\<forall>ov\<in>set ovs. props w1 obj (fst ov) = props w obj (fst ov)"
  shows "rewirings pre w1 obj ovs = rewirings pre w obj ovs"
proof -
  have "override_pairs pre w1 obj ov = override_pairs pre w obj ov" if "ov \<in> set ovs" for ov
  proof -
    obtain q m where ov: "ov = (q, m)" by (cases ov)
    have "props w1 obj q = props w obj q" using assms that ov by force
    then show ?thesis unfolding ov by (rule override_pairs_cong)
  qed
  then have "map (override_pairs pre w1 obj) ovs = map (override_pairs pre w obj) ovs"
    by (intro map_cong refl)
  then show ?thesis by (simp only: rewirings_def)
qed

lemma rewire_nodes_correct:
  assumes "distinct (map fst ovs)"
    and "take (length pre) (nodes_of w scope) = pre"
    and "\<forall>ov\<in>set ovs. override_ok pre w obj ov"
  shows "\<exists>w'. rewire_nodes scope obj ovs w = Inr w'
     \<and> (\<forall>o' q. o' \<noteq> obj \<or> q \<notin> fst ` set ovs \<longrightarrow> props w' o' q = props w o' q)
     \<and> take (length pre) (nodes_of w' scope) = pre
     \<and> (\<forall>ov\<in>set ovs. rewired pre w w' obj ov)
     \<and> nodes_of w' scope
         = filter (\<lambda>m. m \<notin> fst ` set (rewirings pre w obj ovs)) (nodes_of w scope)
     \<and> nodeHeap w' = transfers (rewirings pre w obj ovs) (nodeHeap w)"
  using assms
proof (induction ovs arbitrary: w)
  case Nil
  then show ?case by (simp add: rewirings_def)
next
  case (Cons ov ovs)
  obtain p n where ov: "ov = (p, n)" by (cases ov)
  have fresh_key: "p \<notin> fst ` set ovs" and dist: "distinct (map fst ovs)"
    using Cons.prems(1) by (auto simp: ov)
  have ok: "override_ok pre w obj (p, n)" using Cons.prems(3) by (simp add: ov)
  from rewire_one [OF Cons.prems(2) ok]
  obtain w1 where one: "(case n of
                 Arr ks \<Rightarrow> rewire_array scope obj p 0 ks w
               | _ \<Rightarrow> bindE (replace scope (props w obj p) n w)
                        (\<lambda>(r, w'). Inr (set_prop obj p r w'))) = Inr w1"
    and frame1: "\<forall>o' q. o' \<noteq> obj \<or> q \<noteq> p \<longrightarrow> props w1 o' q = props w o' q"
    and pre1: "take (length pre) (nodes_of w1 scope) = pre"
    and rw1: "rewired pre w w1 obj (p, n)"
    and nodes1: "nodes_of w1 scope
          = filter (\<lambda>m. m \<notin> fst ` set (override_pairs pre w obj (p, n))) (nodes_of w scope)"
    and heap1: "nodeHeap w1 = transfers (override_pairs pre w obj (p, n)) (nodeHeap w)"
    by blast
  have same: "props w1 obj q = props w obj q" if "(q, m) \<in> set ovs" for q m
  proof -
    have "q \<noteq> p" using that fresh_key by force
    then show ?thesis using frame1 [rule_format, of obj q] by blast
  qed
  have ok1: "\<forall>ov'\<in>set ovs. override_ok pre w1 obj ov'"
  proof
    fix ov' assume mem: "ov' \<in> set ovs"
    obtain q m where ov': "ov' = (q, m)" by (cases ov')
    have eq: "override_ok pre w1 obj (q, m) = override_ok pre w obj (q, m)"
      by (rule override_ok_cong) (rule same [of q m], use mem ov' in simp)
    have "override_ok pre w obj (q, m)"
      using Cons.prems(3) mem ov' by auto
    then show "override_ok pre w1 obj ov'"
      unfolding ov' eq .
  qed
  have pairs1: "rewirings pre w1 obj ovs = rewirings pre w obj ovs"
  proof (rule rewirings_cong, rule ballI)
    fix ov' assume mem: "ov' \<in> set ovs"
    obtain q m where ov': "ov' = (q, m)" by (cases ov')
    show "props w1 obj (fst ov') = props w obj (fst ov')"
      unfolding ov' fst_conv by (rule same [of q m]) (use mem ov' in simp)
  qed
  have all_pairs: "rewirings pre w obj (ov # ovs)
      = override_pairs pre w obj (p, n) @ rewirings pre w obj ovs"
    by (simp add: rewirings_def ov)
  from Cons.IH [OF dist pre1 ok1]
  obtain w' where run: "rewire_nodes scope obj ovs w1 = Inr w'"
    and frame': "\<forall>o' q. o' \<noteq> obj \<or> q \<notin> fst ` set ovs \<longrightarrow> props w' o' q = props w1 o' q"
    and pre': "take (length pre) (nodes_of w' scope) = pre"
    and rw': "\<forall>ov\<in>set ovs. rewired pre w1 w' obj ov"
    and nodes': "nodes_of w' scope
         = filter (\<lambda>m. m \<notin> fst ` set (rewirings pre w obj ovs)) (nodes_of w1 scope)"
    and heap': "nodeHeap w' = transfers (rewirings pre w obj ovs) (nodeHeap w1)"
    unfolding pairs1 by blast
  have total: "rewire_nodes scope obj (ov # ovs) w = Inr w'"
    unfolding ov using one run by simp
  have frame: "\<forall>o' q. o' \<noteq> obj \<or> q \<notin> fst ` set (ov # ovs) \<longrightarrow> props w' o' q = props w o' q"
  proof (intro allI impI)
    fix o' q assume "o' \<noteq> obj \<or> q \<notin> fst ` set (ov # ovs)"
    then have a: "o' \<noteq> obj \<or> q \<noteq> p" and b: "o' \<noteq> obj \<or> q \<notin> fst ` set ovs"
      by (auto simp: ov)
    show "props w' o' q = props w o' q"
      using frame1 [rule_format, OF a] frame' [rule_format, OF b] by simp
  qed
  have keep_p: "props w' obj p = props w1 obj p"
    using frame' [rule_format, of obj p] fresh_key by blast
  have head: "rewired pre w w' obj (p, n)"
    using rw1 rewired_cong [OF refl keep_p, of pre w n] by simp
  have tail: "\<forall>ov'\<in>set ovs. rewired pre w w' obj ov'"
  proof
    fix ov' assume mem: "ov' \<in> set ovs"
    obtain q m where ov': "ov' = (q, m)" by (cases ov')
    have eq: "props w1 obj q = props w obj q"
      by (rule same [of q m]) (use mem ov' in simp)
    have "rewired pre w1 w' obj (q, m)" using rw' mem ov' by blast
    then show "rewired pre w w' obj ov'"
      unfolding ov' using rewired_cong [OF eq refl, of pre w' m] by simp
  qed
  have every: "\<forall>ov'\<in>set (ov # ovs). rewired pre w w' obj ov'"
    using head tail by (simp add: ov)
  have n_eq: "nodes_of w' scope
         = filter (\<lambda>m. m \<notin> fst ` set (rewirings pre w obj (ov # ovs))) (nodes_of w scope)"
    unfolding nodes' nodes1 all_pairs by (rule filter_placeholders_append)
  have h_eq: "nodeHeap w' = transfers (rewirings pre w obj (ov # ovs)) (nodeHeap w)"
    unfolding heap' heap1 all_pairs by simp
  show ?case
    using total frame pre' every n_eq h_eq by blast
qed

lemma pair_of_wf:
  assumes "is_placeholder pre v" and "is_index (length pre) n"
    and "(r, t) \<in> set (pair_of pre v n)"
  shows "r \<notin> set pre \<and> t \<in> set pre"
proof -
  from assms(1) obtain r' where v: "v = Ref r'" and fresh: "r' \<notin> set pre"
    by (rule is_placeholderE)
  from assms(2) obtain k where n: "n = Num k" and k: "0 \<le> k" "nat k < length pre"
    by (rule is_indexE)
  show ?thesis using fresh k assms(3) by (simp add: v n pair_of_def)
qed

lemma override_pairs_wf:
  assumes "override_ok pre w obj ov" and mem: "(r, t) \<in> set (override_pairs pre w obj ov)"
  shows "r \<notin> set pre \<and> t \<in> set pre"
proof -
  obtain p n where ov: "ov = (p, n)" by (cases ov)
  show ?thesis
  proof (cases "\<exists>ks. n = Arr ks")
    case True
    then obtain ks where n: "n = Arr ks" by blast
    from assms(1) obtain xs where xs: "props w obj p = Arr xs"
      and all: "list_all2 (\<lambda>x k. is_placeholder pre x \<and> is_index (length pre) k)
                  (take (length ks) xs) ks"
      by (auto simp: ov n override_ok_def split: jsval.splits)
    from mem obtain x k where zk: "(x, k) \<in> set (zip (take (length ks) xs) ks)"
      and rt: "(r, t) \<in> set (pair_of pre x k)"
      by (auto simp: ov n xs override_pairs_def)
    have "is_placeholder pre x \<and> is_index (length pre) k"
      using all zk by (auto simp: list_all2_iff)
    then show ?thesis using pair_of_wf rt by blast
  next
    case False
    with assms(1) have ph: "is_placeholder pre (props w obj p)" and ix: "is_index (length pre) n"
      by (auto simp: ov override_ok_def split: jsval.splits)
    have "(r, t) \<in> set (pair_of pre (props w obj p) n)"
      using mem False by (cases n) (simp_all add: ov override_pairs_def)
    from pair_of_wf [OF ph ix this] show ?thesis .
  qed
qed

lemma rewirings_wf:
  assumes "\<forall>ov\<in>set ovs. override_ok pre w obj ov"
    and "(r, t) \<in> set (rewirings pre w obj ovs)"
  shows "r \<notin> set pre \<and> t \<in> set pre"
proof -
  from assms(2) obtain ov where "ov \<in> set ovs" and "(r, t) \<in> set (override_pairs pre w obj ov)"
    by (auto simp: rewirings_def)
  with assms(1) override_pairs_wf show ?thesis by blast
qed

lemma conns_attach [simp]: "conns (attach_subcircuitMetadata d obj w) = conns w"
  by (simp add: attach_subcircuitMetadata_def conns_def fun_eq_iff)

lemma nodes_of_attach [simp]:
  "nodes_of (attach_subcircuitMetadata d obj w) scope = nodes_of w scope"
  by (simp add: attach_subcircuitMetadata_def)

text \<open>
  C1. For a descriptor with node overrides, each well formed, \<open>loadModule\<close> returns, and
  afterwards every property named by an override references the pre-loaded node at the
  given index; for a sequence of indices, position by position and in order. The
  placeholders are discarded from the node set, whose pre-loaded front is unchanged. The
  connections of every node are given in closed form: a placeholder is left without
  connections; any other node holds its own connections and those of the placeholders it
  replaces, each placeholder among them renamed to the node that replaces it. Hence no
  connection to a placeholder exists afterwards, the node that replaces a placeholder
  holds the connections of that placeholder as well as its own, and every peer that was
  connected to a placeholder is connected to the node that replaces it.
\<close>

theorem loadModule_rewires_nodes:
  assumes mod: "modules E (rectifyObjectType (objectType d)) = Some C"
    and built: "construct_and_restore E C d scope w = Inr (obj, w1)"
    and front: "take (length (nodes_of w scope)) (nodes_of w1 scope) = nodes_of w scope"
    and keys: "distinct (map fst (node_overrides d))"
    and meta: "''subcircuitMetadata'' \<notin> fst ` set (node_overrides d)"
    and ok: "\<forall>ov\<in>set (node_overrides d). override_ok (nodes_of w scope) w1 obj ov"
    and pairs: "ps = rewirings (nodes_of w scope) w1 obj (node_overrides d)"
    and fresh: "distinct (map fst ps)"
  shows "\<exists>w'. loadModule E d scope w = Inr w'
     \<and> (\<forall>ov\<in>set (node_overrides d). rewired (nodes_of w scope) w1 w' obj ov)
     \<and> nodes_of w' scope = filter (\<lambda>m. m \<notin> fst ` set ps) (nodes_of w1 scope)
     \<and> take (length (nodes_of w scope)) (nodes_of w' scope) = nodes_of w scope
     \<and> (\<forall>m. conns w' m
            = (if m \<in> fst ` set ps then {}
               else renamed ps ` (conns w1 m \<union> (\<Union>r\<in>{r. (r, m) \<in> set ps}. conns w1 r))))
     \<and> (\<forall>m. conns w' m \<inter> fst ` set ps = {})
     \<and> (\<forall>(r, t)\<in>set ps.
            renamed ps ` conns w1 r \<subseteq> conns w' t
            \<and> renamed ps ` conns w1 t \<subseteq> conns w' t
            \<and> (\<forall>m. m \<notin> fst ` set ps \<and> r \<in> conns w1 m \<longrightarrow> t \<in> conns w' m))"
proof -
  let ?pre = "nodes_of w scope"
  from rewire_nodes_correct [OF keys front ok]
  obtain w2 where run: "rewire_nodes scope obj (node_overrides d) w1 = Inr w2"
    and rw: "\<forall>ov\<in>set (node_overrides d). rewired ?pre w1 w2 obj ov"
    and pre2: "take (length ?pre) (nodes_of w2 scope) = ?pre"
    and nodes2: "nodes_of w2 scope = filter (\<lambda>m. m \<notin> fst ` set ps) (nodes_of w1 scope)"
    and heap2: "nodeHeap w2 = transfers ps (nodeHeap w1)"
    unfolding pairs by blast
  let ?w' = "attach_subcircuitMetadata d obj w2"
  have load: "loadModule E d scope w = Inr ?w'"
    using mod built run by (simp add: loadModule_def)
  have props: "\<forall>ov\<in>set (node_overrides d). rewired ?pre w1 ?w' obj ov"
  proof
    fix ov assume mem: "ov \<in> set (node_overrides d)"
    obtain p n where ov: "ov = (p, n)" by (cases ov)
    have "p \<noteq> ''subcircuitMetadata''" using mem meta ov by force
    then have same: "props ?w' obj p = props w2 obj p"
      by (rule attach_subcircuitMetadata_frame)
    have "rewired ?pre w1 w2 obj (p, n)" using rw mem ov by blast
    then show "rewired ?pre w1 ?w' obj ov"
      unfolding ov using rewired_cong [OF refl same, of ?pre w1 n] by simp
  qed
  have wf: "r \<notin> set ?pre \<and> t \<in> set ?pre" if "(r, t) \<in> set ps" for r t
    using rewirings_wf [OF ok] that unfolding pairs by blast
  have apart: "snd ` set ps \<inter> fst ` set ps = {}"
  proof (rule ccontr)
    assume "snd ` set ps \<inter> fst ` set ps \<noteq> {}"
    then obtain c where "c \<in> snd ` set ps" and "c \<in> fst ` set ps" by blast
    then obtain r t where "(r, c) \<in> set ps" and "(c, t) \<in> set ps" by force
    with wf [of r c] wf [of c t] show False by simp
  qed
  have closed: "conns ?w' m
            = (if m \<in> fst ` set ps then {}
               else renamed ps ` (conns w1 m \<union> (\<Union>r\<in>{r. (r, m) \<in> set ps}. conns w1 r)))" for m
    using transfers_conns [OF fresh apart, of "nodeHeap w1" m]
    by (simp add: conns_def heap2)
  have none: "conns ?w' m \<inter> fst ` set ps = {}" for m
    unfolding closed [of m] using renamed_not_placeholder [OF apart] by auto
  have each: "renamed ps ` conns w1 r \<subseteq> conns ?w' t
            \<and> renamed ps ` conns w1 t \<subseteq> conns ?w' t
            \<and> (\<forall>m. m \<notin> fst ` set ps \<and> r \<in> conns w1 m \<longrightarrow> t \<in> conns ?w' m)"
    if mem: "(r, t) \<in> set ps" for r t
  proof -
    have t: "t \<notin> fst ` set ps"
      using apart mem by force
    have ren: "renamed ps r = t"
      by (rule renamed_pair [OF fresh mem])
    have a: "renamed ps ` conns w1 r \<subseteq> conns ?w' t"
      unfolding closed [of t] using t mem by auto
    have b: "renamed ps ` conns w1 t \<subseteq> conns ?w' t"
      unfolding closed [of t] using t by auto
    have c: "t \<in> conns ?w' m" if "m \<notin> fst ` set ps" "r \<in> conns w1 m" for m
      unfolding closed [of m] using that ren by auto
    show ?thesis using a b c by blast
  qed
  show ?thesis
  proof (intro exI conjI)
    show "loadModule E d scope w = Inr ?w'" by (rule load)
    show "\<forall>ov\<in>set (node_overrides d). rewired ?pre w1 ?w' obj ov" by (rule props)
    show "nodes_of ?w' scope = filter (\<lambda>m. m \<notin> fst ` set ps) (nodes_of w1 scope)"
      by (simp add: nodes2)
    show "take (length ?pre) (nodes_of ?w' scope) = ?pre" by (simp add: pre2)
    show "\<forall>m. conns ?w' m
            = (if m \<in> fst ` set ps then {}
               else renamed ps ` (conns w1 m \<union> (\<Union>r\<in>{r. (r, m) \<in> set ps}. conns w1 r)))"
      using closed by blast
    show "\<forall>m. conns ?w' m \<inter> fst ` set ps = {}" using none by blast
    show "\<forall>(r, t)\<in>set ps.
            renamed ps ` conns w1 r \<subseteq> conns ?w' t
            \<and> renamed ps ` conns w1 t \<subseteq> conns ?w' t
            \<and> (\<forall>m. m \<notin> fst ` set ps \<and> r \<in> conns w1 m \<longrightarrow> t \<in> conns ?w' m)"
      using each by blast
  qed
qed

theorem loadModule_rewires_nodes_witness:
  "modules example_env (rectifyObjectType (objectType and_descr)) = Some example_ctor
   \<and> construct_and_restore example_env example_ctor and_descr 0 (example_world [3, 4, 5])
       = Inr (50, example_built)
   \<and> node_overrides and_descr = [(''inp'', Arr [Num 0, Num 1]), (''output1'', Num 2)]
   \<and> override_ok [3, 4, 5] example_built 50 (''inp'', Arr [Num 0, Num 1])
   \<and> override_ok [3, 4, 5] example_built 50 (''output1'', Num 2)
   \<and> rewirings [3, 4, 5] example_built 50 (node_overrides and_descr) = [(20, 3), (21, 4), (22, 5)]
   \<and> conns example_built 20 = {7, 21} \<and> conns example_built 7 = {20}
   \<and> (\<exists>w'. loadModule example_env and_descr 0 (example_world [3, 4, 5]) = Inr w'
         \<and> props w' 50 ''inp'' = Arr [Ref 3, Ref 4]
         \<and> props w' 50 ''output1'' = Ref 5
         \<and> nodes_of w' 0 = [3, 4, 5]
         \<and> conns w' 3 = {7, 4} \<and> conns w' 4 = {3} \<and> conns w' 5 = {8}
         \<and> conns w' 7 = {3} \<and> conns w' 8 = {5}
         \<and> conns w' 20 = {} \<and> conns w' 21 = {} \<and> conns w' 22 = {})"
proof -
  let ?w = "example_world [3, 4, 5]"
  let ?ps = "[(20, 3), (21, 4), (22, 5)] :: (ref \<times> ref) list"
  have pre: "nodes_of ?w 0 = [3, 4, 5]"
    by (simp add: example_defs nodes_of_def)
  have h1: "modules example_env (rectifyObjectType (objectType and_descr)) = Some example_ctor"
    by (simp add: example_defs rectifyObjectType_def rectify_def)
  have h2: "construct_and_restore example_env example_ctor and_descr 0 ?w = Inr (50, example_built)"
    by (simp add: example_built_def example_defs loadModule_defs)
  have ovs: "node_overrides and_descr = [(''inp'', Arr [Num 0, Num 1]), (''output1'', Num 2)]"
    by (simp add: node_overrides_def and_descr_def)
  have built_nodes: "nodes_of example_built 0 = [3, 4, 5, 20, 21, 22]"
    and built_inp: "props example_built 50 ''inp'' = Arr [Ref 20, Ref 21]"
    and built_out: "props example_built 50 ''output1'' = Ref 22"
    by (simp_all add: example_built_def example_defs loadModule_defs)
  have built_conns: "conns example_built 3 = {}" "conns example_built 4 = {}"
    "conns example_built 5 = {}" "conns example_built 7 = {20}" "conns example_built 8 = {22}"
    "conns example_built 20 = {7, 21}" "conns example_built 21 = {20}"
    "conns example_built 22 = {8}"
    by (simp_all add: conns_def example_built_def example_defs loadModule_defs)
  have h3: "take (length (nodes_of ?w 0)) (nodes_of example_built 0) = nodes_of ?w 0"
    unfolding pre built_nodes by simp
  have h4: "distinct (map fst (node_overrides and_descr))"
    and h5: "''subcircuitMetadata'' \<notin> fst ` set (node_overrides and_descr)"
    by (simp_all add: ovs)
  have oks: "override_ok [3, 4, 5] example_built 50 (''inp'', Arr [Num 0, Num 1])"
    "override_ok [3, 4, 5] example_built 50 (''output1'', Num 2)"
    by (simp_all add: override_ok_def built_inp built_out is_placeholder_def is_index_def)
  have h6: "\<forall>ov\<in>set (node_overrides and_descr). override_ok (nodes_of ?w 0) example_built 50 ov"
    unfolding pre ovs using oks by simp
  have h7: "?ps = rewirings (nodes_of ?w 0) example_built 50 (node_overrides and_descr)"
    unfolding pre ovs
    by (simp add: rewirings_def override_pairs_def pair_of_def built_inp built_out)
  have h8: "distinct (map fst ?ps)" by simp
  have absorbed: "{r. (r, 3) \<in> set ?ps} = {20}" "{r. (r, 4) \<in> set ?ps} = {21}"
    "{r. (r, 5) \<in> set ?ps} = {22}" "{r. (r, 7) \<in> set ?ps} = {}" "{r. (r, 8) \<in> set ?ps} = {}"
    by auto
  from loadModule_rewires_nodes [OF h1 h2 h3 h4 h5 h6 h7 h8] show ?thesis
  proof (elim exE conjE)
    fix w'
    assume run: "loadModule example_env and_descr 0 ?w = Inr w'"
      and rw: "\<forall>ov\<in>set (node_overrides and_descr).
                 rewired (nodes_of ?w 0) example_built w' 50 ov"
      and nodes: "nodes_of w' 0 = filter (\<lambda>m. m \<notin> fst ` set ?ps) (nodes_of example_built 0)"
      and closed: "\<forall>m. conns w' m
            = (if m \<in> fst ` set ?ps then {}
               else renamed ?ps ` (conns example_built m
                                    \<union> (\<Union>r\<in>{r. (r, m) \<in> set ?ps}. conns example_built r)))"
    have inp: "props w' 50 ''inp'' = Arr [Ref 3, Ref 4]"
      and out: "props w' 50 ''output1'' = Ref 5"
      using rw unfolding pre ovs
      by (simp_all add: rewired_def built_inp built_out target_def)
    have nodes': "nodes_of w' 0 = [3, 4, 5]"
      unfolding nodes built_nodes by simp
    have c: "conns w' 3 = {7, 4}" "conns w' 4 = {3}" "conns w' 5 = {8}"
      "conns w' 7 = {3}" "conns w' 8 = {5}"
      "conns w' 20 = {}" "conns w' 21 = {}" "conns w' 22 = {}"
      by (simp_all add: closed absorbed built_conns renamed_def)
    have "loadModule example_env and_descr 0 ?w = Inr w'
         \<and> props w' 50 ''inp'' = Arr [Ref 3, Ref 4]
         \<and> props w' 50 ''output1'' = Ref 5
         \<and> nodes_of w' 0 = [3, 4, 5]
         \<and> conns w' 3 = {7, 4} \<and> conns w' 4 = {3} \<and> conns w' 5 = {8}
         \<and> conns w' 7 = {3} \<and> conns w' 8 = {5}
         \<and> conns w' 20 = {} \<and> conns w' 21 = {} \<and> conns w' 22 = {}"
      by (intro conjI) (rule run inp out nodes' c)+
    then have ex: "\<exists>w'. loadModule example_env and_descr 0 ?w = Inr w'
         \<and> props w' 50 ''inp'' = Arr [Ref 3, Ref 4]
         \<and> props w' 50 ''output1'' = Ref 5
         \<and> nodes_of w' 0 = [3, 4, 5]
         \<and> conns w' 3 = {7, 4} \<and> conns w' 4 = {3} \<and> conns w' 5 = {8}
         \<and> conns w' 7 = {3} \<and> conns w' 8 = {5}
         \<and> conns w' 20 = {} \<and> conns w' 21 = {} \<and> conns w' 22 = {}"
      by (rule exI [of _ w'])
    show ?thesis
      by (intro conjI) (rule h1 h2 ovs oks h7 [unfolded pre, symmetric] built_conns ex)+
  qed
qed

section \<open>Loading one scope\<close>

lemma layout_ports_frame:
  "o' \<notin> set ps \<Longrightarrow> props (layout_ports gen px h n i ps w) o' = props w o'"
  by (induction ps arbitrary: i w) (auto simp: set_prop_def)

lemma layout_ports_stores:
  "scopeHeap (layout_ports gen px h n i ps w) = scopeHeap w
   \<and> globalScope (layout_ports gen px h n i ps w) = globalScope w
   \<and> idCalls (layout_ports gen px h n i ps w) = idCalls w + length ps"
  by (induction ps arbitrary: i w) (auto simp: set_prop_def)

lemma layout_ports_props:
  "distinct ps \<Longrightarrow> j < length ps \<Longrightarrow>
   props (layout_ports gen px h n i ps w) (ps ! j) ''layoutProperties''
     = Obj [(''x'', Num px),
            (''y'', Num (h div 2 - int n * 10 + 20 * int (i + j) + 10)),
            (''id'', Str (gen (idCalls w + j)))]"
proof (induction ps arbitrary: i w j)
  case Nil
  then show ?case by simp
next
  case (Cons p ps)
  show ?case
  proof (cases j)
    case 0
    have "p \<notin> set ps" using Cons.prems(1) by simp
    then show ?thesis
      using 0 by (simp add: layout_ports_frame props_set_prop)
  next
    case (Suc j')
    have "distinct ps" and "j' < length ps"
      using Cons.prems Suc by simp_all
    from Cons.IH [OF this] show ?thesis
      using Suc by (simp add: set_prop_def)
  qed
qed

lemma synthesize_layout_result:
  assumes ins: "ins = ports_of (Input (scopeHeap w scope))"
    and outs: "outs = ports_of (Output (scopeHeap w scope))"
    and dist: "distinct (ins @ outs)"
    and h: "h = int (max (length ins) (length outs)) * 20 + 20"
  shows "Scope.layout (scopeHeap (synthesize_layout E scope w) scope)
           = \<lparr>width = 100, height = h, title_x = 50, title_y = 13, titleEnabled = None\<rparr>
     \<and> (\<forall>s. s \<noteq> scope \<longrightarrow> scopeHeap (synthesize_layout E scope w) s = scopeHeap w s)
     \<and> Scope.testbenchData (scopeHeap (synthesize_layout E scope w) scope)
           = Scope.testbenchData (scopeHeap w scope)
     \<and> globalScope (synthesize_layout E scope w) = globalScope w
     \<and> (\<forall>i<length ins. props (synthesize_layout E scope w) (ins ! i) ''layoutProperties''
            = port_layout 0 h (length ins) i (generateId E (idCalls w + i)))
     \<and> (\<forall>i<length outs. props (synthesize_layout E scope w) (outs ! i) ''layoutProperties''
            = port_layout 100 h (length outs) i (generateId E (idCalls w + length ins + i)))
     \<and> idCalls (synthesize_layout E scope w) = idCalls w + length ins + length outs"
proof -
  let ?sc = "scopeHeap w scope"
  let ?lay = "\<lparr>width = 100, height = h, title_x = 50, title_y = 13, titleEnabled = None\<rparr>"
  let ?w1 = "w\<lparr>scopeHeap := (scopeHeap w)(scope := ?sc\<lparr>Scope.layout := ?lay\<rparr>)\<rparr>"
  let ?w2 = "layout_ports (generateId E) 0 h (length ins) 0 ins ?w1"
  let ?w3 = "layout_ports (generateId E) 100 h (length outs) 0 outs ?w2"
  have eq: "synthesize_layout E scope w = ?w3"
    by (cases "Input ?sc"; cases "Output ?sc")
      (simp_all add: synthesize_layout_def Let_def h ins outs ports_of_def port_count_def)
  have d_in: "distinct ins" and d_out: "distinct outs" and disj: "set ins \<inter> set outs = {}"
    using dist by auto
  have in_props: "props ?w3 (ins ! i) ''layoutProperties''
      = port_layout 0 h (length ins) i (generateId E (idCalls w + i))" if "i < length ins" for i
  proof -
    have "ins ! i \<notin> set outs" using that disj by (meson disjoint_iff nth_mem)
    then have "props ?w3 (ins ! i) = props ?w2 (ins ! i)" by (rule layout_ports_frame)
    then show ?thesis
      using layout_ports_props [OF d_in that, of "generateId E" 0 h "length ins" 0 ?w1]
      by (simp add: port_layout_def)
  qed
  have out_props: "props ?w3 (outs ! i) ''layoutProperties''
      = port_layout 100 h (length outs) i (generateId E (idCalls w + length ins + i))"
    if "i < length outs" for i
    using layout_ports_props [OF d_out that, of "generateId E" 100 h "length outs" 0 ?w2]
    by (simp add: port_layout_def layout_ports_stores)
  show ?thesis
    unfolding eq using in_props out_props by (simp add: layout_ports_stores)
qed


lemma synthesize_layout_testbench:
  "Scope.testbenchData (scopeHeap (synthesize_layout E scope w) s) = Scope.testbenchData (scopeHeap w s)
   \<and> globalScope (synthesize_layout E scope w) = globalScope w"
  by (cases "Input (scopeHeap w scope)"; cases "Output (scopeHeap w scope)")
    (simp_all add: synthesize_layout_def Let_def layout_ports_stores)

lemma resolve_layout_testbench:
  "Scope.testbenchData (scopeHeap (resolve_layout E data scope w) s) = Scope.testbenchData (scopeHeap w s)
   \<and> globalScope (resolve_layout E data scope w) = globalScope w"
  by (cases "ScopeData.layout data") (simp_all add: resolve_layout_def synthesize_layout_testbench)

lemma default_titleEnabled_testbench:
  "Scope.testbenchData (scopeHeap (default_titleEnabled scope w) s) = Scope.testbenchData (scopeHeap w s)
   \<and> globalScope (default_titleEnabled scope w) = globalScope w"
  by (simp add: default_titleEnabled_def Let_def)

lemma restore_verilogMetadata_testbench:
  "Scope.testbenchData (scopeHeap (restore_verilogMetadata data scope w) s) = Scope.testbenchData (scopeHeap w s)
   \<and> globalScope (restore_verilogMetadata data scope w) = globalScope w"
  by (simp add: restore_verilogMetadata_def split: option.splits)

lemma ports_graph_loads:
  "load_graph example_env 0 main_descr ports_world = Inr ports_graph"
  by (simp add: ports_graph_def loadScope_defs ports_world_def main_descr_def example_env_def
      example_world_def scope_with_nodes_def)

lemma ports_graph_simps:
  "Input (scopeHeap ports_graph 0) = Some [60, 61]"
  "Output (scopeHeap ports_graph 0) = Some [62]"
  "idCalls ports_graph = 0"
  "globalScope ports_graph = Some 1"
  "Scope.testbenchData (scopeHeap ports_graph 0) = None"
  by (simp_all add: ports_graph_def loadScope_defs ports_world_def main_descr_def example_env_def
      example_world_def scope_with_nodes_def)

text \<open>
  C5. When the descriptor carries testbench data, \<open>loadScope\<close> writes the testbench
  state built from the test data, the current group and the current case into the scope
  that has the global focus, and into no other scope; when no scope has the global focus
  no testbench state is written at all.
\<close>

theorem loadScope_testbench_on_global_focus:
  assumes tb: "ScopeData.testbenchData data = Some tb"
    and graph: "load_graph E scope data w = Inr w5"
  shows "\<exists>w'. loadScope E scope data w = Inr w'
     \<and> globalScope w' = globalScope w5
     \<and> (case globalScope w5 of
          Some g \<Rightarrow>
            Scope.testbenchData (scopeHeap w' g)
              = Some (TestbenchData (testData tb) (currentGroup tb) (currentCase tb))
            \<and> (\<forall>s. s \<noteq> g \<longrightarrow>
                  Scope.testbenchData (scopeHeap w' s) = Scope.testbenchData (scopeHeap w5 s))
        | None \<Rightarrow>
            (\<forall>s. Scope.testbenchData (scopeHeap w' s) = Scope.testbenchData (scopeHeap w5 s)))"
proof -
  let ?wv = "restore_verilogMetadata data scope w5"
  let ?wt = "restore_testbench data ?wv"
  let ?w' = "restore_metadata E scope data w5"
  have run: "loadScope E scope data w = Inr ?w'"
    using graph by (simp add: loadScope_def)
  have later: "Scope.testbenchData (scopeHeap ?w' s) = Scope.testbenchData (scopeHeap ?wt s)"
    "globalScope ?w' = globalScope ?wt" for s
    by (simp_all add: restore_metadata_def default_titleEnabled_testbench resolve_layout_testbench)
  have focus: "globalScope ?wt = globalScope w5"
    by (simp add: restore_testbench_def restore_verilogMetadata_testbench split: option.splits)
  have written: "(case globalScope w5 of
          Some g \<Rightarrow>
            Scope.testbenchData (scopeHeap ?wt g)
              = Some (TestbenchData (testData tb) (currentGroup tb) (currentCase tb))
            \<and> (\<forall>s. s \<noteq> g \<longrightarrow>
                  Scope.testbenchData (scopeHeap ?wt s) = Scope.testbenchData (scopeHeap w5 s))
        | None \<Rightarrow>
            (\<forall>s. Scope.testbenchData (scopeHeap ?wt s) = Scope.testbenchData (scopeHeap w5 s)))"
    by (simp add: restore_testbench_def tb restore_verilogMetadata_testbench split: option.splits)
  show ?thesis
    unfolding run using written
    by (cases "globalScope w5") (simp_all add: later focus)
qed

theorem loadScope_testbench_on_global_focus_witness:
  "ScopeData.testbenchData main_descr
       = Some \<lparr>testData = Str ''tests'', currentGroup = Num 0, currentCase = Num 0\<rparr>
   \<and> load_graph example_env 0 main_descr ports_world = Inr ports_graph
   \<and> globalScope ports_graph = Some 1
   \<and> (\<exists>w'. loadScope example_env 0 main_descr ports_world = Inr w'
         \<and> Scope.testbenchData (scopeHeap w' 1) = Some (TestbenchData (Str ''tests'') (Num 0) (Num 0))
         \<and> Scope.testbenchData (scopeHeap w' 0) = None)"
proof -
  have tb: "ScopeData.testbenchData main_descr
       = Some \<lparr>testData = Str ''tests'', currentGroup = Num 0, currentCase = Num 0\<rparr>"
    by (simp add: main_descr_def)
  from loadScope_testbench_on_global_focus [OF tb ports_graph_loads]
  obtain w' where run: "loadScope example_env 0 main_descr ports_world = Inr w'"
    and wr: "Scope.testbenchData (scopeHeap w' 1) = Some (TestbenchData (Str ''tests'') (Num 0) (Num 0))"
    and others: "\<forall>s. s \<noteq> 1 \<longrightarrow>
                  Scope.testbenchData (scopeHeap w' s) = Scope.testbenchData (scopeHeap ports_graph s)"
    by (auto simp: ports_graph_simps)
  have "Scope.testbenchData (scopeHeap w' 0) = None"
    using others [rule_format, of 0] by (simp add: ports_graph_simps)
  with tb ports_graph_loads run wr show ?thesis
    by (simp add: ports_graph_simps)
qed

lemma restore_before_layout:
  "Input (scopeHeap (restore_testbench data (restore_verilogMetadata data scope w)) s)
       = Input (scopeHeap w s)
   \<and> Output (scopeHeap (restore_testbench data (restore_verilogMetadata data scope w)) s)
       = Output (scopeHeap w s)
   \<and> idCalls (restore_testbench data (restore_verilogMetadata data scope w)) = idCalls w
   \<and> props (restore_testbench data (restore_verilogMetadata data scope w)) = props w"
  by (simp add: restore_testbench_def restore_verilogMetadata_def split: option.splits)

text \<open>
  C2. Without a persisted layout, \<open>loadScope\<close> gives the scope a layout of width
  \<open>100\<close>, height \<open>max(inputs, outputs) * 20 + 20\<close> and title position \<open>(50, 13)\<close>,
  places input port \<open>i\<close> at \<open>(0, height/2 - inputs * 10 + 20 * i + 10)\<close> and output
  port \<open>i\<close> at \<open>(width, height/2 - outputs * 10 + 20 * i + 10)\<close>, and gives each port
  the identifier returned by a call of \<open>generateId\<close> of its own. For two inputs and one
  output the height is \<open>60\<close>, the inputs are at \<open>y = 20\<close> and \<open>y = 40\<close> and the output
  at \<open>y = 30\<close>.
\<close>

theorem loadScope_synthesizes_layout:
  assumes none: "ScopeData.layout data = None"
    and graph: "load_graph E scope data w = Inr w5"
    and ins: "ins = ports_of (Input (scopeHeap w5 scope))"
    and outs: "outs = ports_of (Output (scopeHeap w5 scope))"
    and dist: "distinct (ins @ outs)"
    and h: "h = int (max (length ins) (length outs)) * 20 + 20"
  shows "\<exists>w'. loadScope E scope data w = Inr w'
     \<and> Scope.layout (scopeHeap w' scope)
           = \<lparr>width = 100, height = h, title_x = 50, title_y = 13, titleEnabled = Some True\<rparr>
     \<and> (\<forall>i<length ins. props w' (ins ! i) ''layoutProperties''
            = port_layout 0 h (length ins) i (generateId E (idCalls w5 + i)))
     \<and> (\<forall>i<length outs. props w' (outs ! i) ''layoutProperties''
            = port_layout 100 h (length outs) i (generateId E (idCalls w5 + length ins + i)))
     \<and> idCalls w' = idCalls w5 + length ins + length outs"
proof -
  let ?wt = "restore_testbench data (restore_verilogMetadata data scope w5)"
  let ?ws = "synthesize_layout E scope ?wt"
  let ?w' = "restore_metadata E scope data w5"
  have run: "loadScope E scope data w = Inr ?w'"
    using graph by (simp add: loadScope_def)
  have w': "?w' = default_titleEnabled scope ?ws"
    by (simp add: restore_metadata_def resolve_layout_def none)
  have ins': "ins = ports_of (Input (scopeHeap ?wt scope))"
    and outs': "outs = ports_of (Output (scopeHeap ?wt scope))"
    by (simp_all add: ins outs restore_before_layout)
  note syn = synthesize_layout_result [OF ins' outs' dist h, of E]
  have lay: "Scope.layout (scopeHeap ?ws scope)
      = \<lparr>width = 100, height = h, title_x = 50, title_y = 13, titleEnabled = None\<rparr>"
    using syn by blast
  have final_layout: "Scope.layout (scopeHeap ?w' scope)
      = \<lparr>width = 100, height = h, title_x = 50, title_y = 13, titleEnabled = Some True\<rparr>"
    unfolding w' by (simp add: default_titleEnabled_def Let_def lay)
  have same: "props ?w' = props ?ws" "idCalls ?w' = idCalls ?ws"
    unfolding w' by (simp_all add: default_titleEnabled_def Let_def)
  show ?thesis
    unfolding run using final_layout syn by (simp add: same restore_before_layout)
qed

theorem loadScope_synthesizes_layout_witness:
  "ScopeData.layout main_descr = None
   \<and> load_graph example_env 0 main_descr ports_world = Inr ports_graph
   \<and> ports_of (Input (scopeHeap ports_graph 0)) = [60, 61]
   \<and> ports_of (Output (scopeHeap ports_graph 0)) = [62]
   \<and> (\<exists>w'. loadScope example_env 0 main_descr ports_world = Inr w'
         \<and> Scope.layout (scopeHeap w' 0)
             = \<lparr>width = 100, height = 60, title_x = 50, title_y = 13, titleEnabled = Some True\<rparr>
         \<and> props w' 60 ''layoutProperties'' = Obj [(''x'', Num 0), (''y'', Num 20), (''id'', Str ''a'')]
         \<and> props w' 61 ''layoutProperties'' = Obj [(''x'', Num 0), (''y'', Num 40), (''id'', Str ''aa'')]
         \<and> props w' 62 ''layoutProperties'' = Obj [(''x'', Num 100), (''y'', Num 30), (''id'', Str ''aaa'')])"
proof -
  have none: "ScopeData.layout main_descr = None" by (simp add: main_descr_def)
  have ins: "[60, 61] = ports_of (Input (scopeHeap ports_graph 0))"
    and outs: "[62] = ports_of (Output (scopeHeap ports_graph 0))"
    by (simp_all add: ports_graph_simps ports_of_def)
  have dist: "distinct ([60, 61] @ [62 :: nat])" by simp
  have h: "60 = int (max (length [60, 61 :: nat]) (length [62 :: nat])) * 20 + 20" by simp
  from loadScope_synthesizes_layout [OF none ports_graph_loads ins outs dist h]
  obtain w' where run: "loadScope example_env 0 main_descr ports_world = Inr w'"
    and lay: "Scope.layout (scopeHeap w' 0)
             = \<lparr>width = 100, height = 60, title_x = 50, title_y = 13, titleEnabled = Some True\<rparr>"
    and inp: "\<forall>i<length [60, 61 :: nat]. props w' ([60, 61] ! i) ''layoutProperties''
            = port_layout 0 60 (length [60, 61 :: nat]) i (generateId example_env (idCalls ports_graph + i))"
    and outp: "\<forall>i<length [62 :: nat]. props w' ([62] ! i) ''layoutProperties''
            = port_layout 100 60 (length [62 :: nat]) i
                (generateId example_env (idCalls ports_graph + length [60, 61 :: nat] + i))"
    by blast
  have p0: "props w' 60 ''layoutProperties'' = Obj [(''x'', Num 0), (''y'', Num 20), (''id'', Str ''a'')]"
    using inp [rule_format, of 0]
    by (simp add: port_layout_def ports_graph_simps example_env_def)
  have p1: "props w' 61 ''layoutProperties'' = Obj [(''x'', Num 0), (''y'', Num 40), (''id'', Str ''aa'')]"
    using inp [rule_format, of 1]
    by (simp add: port_layout_def ports_graph_simps example_env_def)
  have p2: "props w' 62 ''layoutProperties'' = Obj [(''x'', Num 100), (''y'', Num 30), (''id'', Str ''aaa'')]"
    using outp [rule_format, of 0]
    by (simp add: port_layout_def ports_graph_simps example_env_def)
  show ?thesis
    using none ports_graph_loads ins outs run lay p0 p1 p2 by auto
qed

lemma loadAllModules_append:
  "loadAllModules E (ms1 @ ms2) data scope w
     = bindE (loadAllModules E ms1 data scope w) (loadAllModules E ms2 data scope)"
proof (induction ms1 arbitrary: w)
  case Nil
  show ?case by simp
next
  case (Cons m ms1)
  have step: "bindE r (loadAllModules E (ms1 @ ms2) data scope)
      = bindE (bindE r (loadAllModules E ms1 data scope)) (loadAllModules E ms2 data scope)" for r
    by (cases r) (simp_all add: Cons.IH)
  show ?case by (simp add: step)
qed

text \<open>
  C6. When the rectified tag of a descriptor has no registered constructor, \<open>loadModule\<close>
  returns normally with the store unchanged but for one diagnostic, and \<open>loadScope\<close> goes
  on: it loads the descriptors that follow under the same tag from the store that holds
  the diagnostic, then the tags that follow, then updates the wires, repairs the graph
  and restores the metadata, as it does when every tag is registered.
\<close>

theorem loadModule_unknown_type_is_skipped:
  assumes unknown: "modules E (rectifyObjectType (objectType d)) = None"
    and listed: "elements data m = Some (ds1 @ d # ds2)"
    and plain: "m \<noteq> ''SubCircuit''"
    and tags: "moduleList E = ms1 @ m # ms2"
  shows "loadModule E d scope w = Inr (report_not_found d w)
     \<and> loadModules E (ds1 @ d # ds2) scope w
           = bindE (loadModules E ds1 scope w)
               (\<lambda>w1. loadModules E ds2 scope (report_not_found d w1))
     \<and> loadAllModules E (m # ms2) data scope w
           = bindE (loadModules E ds1 scope w)
               (\<lambda>w1. bindE (loadModules E ds2 scope (report_not_found d w1))
                        (loadAllModules E ms2 data scope))
     \<and> loadScope E scope data w
           = bindE (load_nodes E scope data w)
               (\<lambda>w1. bindE (loadAllModules E ms1 data scope w1)
               (\<lambda>w2. bindE (loadModules E ds1 scope w2)
               (\<lambda>w3. bindE (loadModules E ds2 scope (report_not_found d w3))
               (\<lambda>w4. bindE (loadAllModules E ms2 data scope w4)
               (\<lambda>w5. bindE (update_and_repair E scope w5)
               (\<lambda>w6. Inr (restore_metadata E scope data w6)))))))"
proof -
  have one: "loadModule E d scope u = Inr (report_not_found d u)" for u
    using unknown by (simp add: loadModule_def)
  have rest: "loadModules E (d # ds2) scope
      = (\<lambda>w1. loadModules E ds2 scope (report_not_found d w1))"
    by (rule ext) (simp add: one)
  have inner: "loadModules E (ds1 @ d # ds2) scope u
           = bindE (loadModules E ds1 scope u)
               (\<lambda>w1. loadModules E ds2 scope (report_not_found d w1))" for u
    unfolding loadModules_append rest ..
  have outer: "loadAllModules E (m # ms2) data scope u
      = bindE (loadModules E ds1 scope u)
               (\<lambda>w1. bindE (loadModules E ds2 scope (report_not_found d w1))
                        (loadAllModules E ms2 data scope))" for u
    using listed plain by (simp add: inner bindE_assoc)
  have all: "loadAllModules E (moduleList E) data scope u
      = bindE (loadAllModules E ms1 data scope u)
          (\<lambda>w2. bindE (loadModules E ds1 scope w2)
          (\<lambda>w3. bindE (loadModules E ds2 scope (report_not_found d w3))
                   (loadAllModules E ms2 data scope)))" for u
    unfolding tags loadAllModules_append
    by (rule arg_cong [where f = "bindE (loadAllModules E ms1 data scope u)"])
       (rule ext, rule outer)
  have scope: "loadScope E scope data w
           = bindE (load_nodes E scope data w)
               (\<lambda>w1. bindE (loadAllModules E ms1 data scope w1)
               (\<lambda>w2. bindE (loadModules E ds1 scope w2)
               (\<lambda>w3. bindE (loadModules E ds2 scope (report_not_found d w3))
               (\<lambda>w4. bindE (loadAllModules E ms2 data scope w4)
               (\<lambda>w5. bindE (update_and_repair E scope w5)
               (\<lambda>w6. Inr (restore_metadata E scope data w6)))))))"
    unfolding loadScope_def load_graph_def all bindE_assoc ..
  show ?thesis
    by (intro conjI) (rule one inner outer scope)+
qed

theorem loadModule_unknown_type_is_skipped_witness:
  "modules example_env (rectifyObjectType (objectType (and_descr\<lparr>objectType := ''Xor''\<rparr>))) = None
   \<and> elements skip_descr ''AndGate'' = Some ([] @ and_descr\<lparr>objectType := ''Xor''\<rparr> # [and_descr])
   \<and> moduleList example_env = [] @ ''AndGate'' # []
   \<and> loadModule example_env (and_descr\<lparr>objectType := ''Xor''\<rparr>) 0 (example_world [10, 11, 12])
       = Inr ((example_world [10, 11, 12])\<lparr>console := [''Module type Xor not found'']\<rparr>)
   \<and> (case loadScope example_env 0 skip_descr (example_world [10, 11, 12]) of
        Inl e \<Rightarrow> False
      | Inr w' \<Rightarrow> console w' = [''Module type Xor not found'']
                 \<and> props w' 50 ''objectType'' = Str ''AndGate''
                 \<and> props w' 50 ''inp'' = Arr [Ref 10, Ref 11]
                 \<and> props w' 50 ''output1'' = Ref 12
                 \<and> nodes_of w' 0 = [10, 11, 12])"
proof -
  let ?bad = "and_descr\<lparr>objectType := ''Xor''\<rparr>"
  let ?w = "example_world [10, 11, 12]"
  have h1: "modules example_env (rectifyObjectType (objectType ?bad)) = None"
    by (simp add: example_defs rectifyObjectType_def rectify_def)
  have h2: "elements skip_descr ''AndGate'' = Some ([] @ ?bad # [and_descr])"
    by (simp add: skip_descr_def)
  have h3: "''AndGate'' \<noteq> ''SubCircuit''" by simp
  have h4: "moduleList example_env = [] @ ''AndGate'' # []"
    by (simp add: example_env_def)
  note skipped = loadModule_unknown_type_is_skipped [OF h1 h2 h3 h4, of 0 ?w]
  have nodes: "load_nodes example_env 0 skip_descr ?w = Inr ?w"
    by (simp add: load_nodes_def skip_descr_def example_defs fun_eq_iff)
  have one: "loadModule example_env ?bad 0 ?w = Inr (?w\<lparr>console := [''Module type Xor not found'']\<rparr>)"
    using skipped by (simp add: report_not_found_def example_world_def)
  have run: "loadScope example_env 0 skip_descr ?w
      = bindE (loadModule example_env and_descr 0 (report_not_found ?bad ?w))
          (\<lambda>w5. bindE (update_and_repair example_env 0 w5)
          (\<lambda>w6. Inr (restore_metadata example_env 0 skip_descr w6)))"
    using skipped by (simp add: nodes bindE_assoc)
  have "case loadScope example_env 0 skip_descr ?w of
        Inl e \<Rightarrow> False
      | Inr w' \<Rightarrow> console w' = [''Module type Xor not found'']
                 \<and> props w' 50 ''objectType'' = Str ''AndGate''
                 \<and> props w' 50 ''inp'' = Arr [Ref 10, Ref 11]
                 \<and> props w' 50 ''output1'' = Ref 12
                 \<and> nodes_of w' 0 = [10, 11, 12]"
    unfolding run
    by (simp add: example_defs loadModule_defs report_not_found_def
        update_and_repair_def update_wires_def removeBugNodes_def removeBugNodes_body_def
        isBugNode_def restore_metadata_def restore_verilogMetadata_def restore_testbench_def
        resolve_layout_def synthesize_layout_def default_titleEnabled_def port_count_def
        skip_descr_def)
  with h1 h2 h4 one show ?thesis by simp
qed

section \<open>Tab order\<close>

lemma sort_insert_insort_key:
  "sort_insert (\<lambda>a b. f a - f b) a bs = insort_key f a bs" for f :: "'a \<Rightarrow> int"
  by (induction bs) auto

lemma array_sort_sort_key:
  "array_sort (\<lambda>a b. f a - f b) xs = sort_key f xs" for f :: "'a \<Rightarrow> int"
proof -
  have "sort_insert (\<lambda>a b. f a - f b) = insort_key f"
    by (intro ext) (rule sort_insert_insort_key)
  then show ?thesis by (simp add: array_sort_def sort_key_def)
qed

lemma indexOf_ge: "- 1 \<le> indexOf xs v"
  by (induction xs) (auto simp: Let_def)

lemma indexOf_absent: "indexOf xs v = - 1 \<longleftrightarrow> v \<notin> set xs"
proof (induction xs)
  case Nil
  show ?case by simp
next
  case (Cons x xs)
  show ?case
    using Cons.IH indexOf_ge [of xs v] by (auto simp: Let_def)
qed

text \<open>
  What follows the reordering calls procedures of the simulator only; when none of them
  touches the circuit list, the list that \<open>load\<close> leaves is the reordered one.
\<close>

lemma load_finish_circuit_list:
  assumes keeps: "\<forall>f args u v. extern E f args u = Inr v \<longrightarrow> circuit_list v = circuit_list u"
    and run: "load_finish E data w = Inr w'"
  shows "circuit_list w' = circuit_list w"
proof -
  have ext: "extern E f args u = Inr v \<Longrightarrow> circuit_list v = circuit_list u" for f args u v
    using keeps by blast
  have opt: "(if c then extern E f args u else Inr u) = Inr v \<Longrightarrow> circuit_list v = circuit_list u"
    for c f args u v
    by (cases c) (auto dest: ext)
  from run obtain w1 w2 w3 w4 w5 where
    s1: "(if truthy (opt_val (focussedCircuit data))
          then extern E ''switchCircuit'' [Str (String_of E (opt_val (focussedCircuit data)))] w
          else Inr w) = Inr w1"
    and s2: "extern E ''updateSimulationSet'' [Bool True] w1 = Inr w2"
    and s3: "extern E ''updateCanvasSet'' [Bool True] w2 = Inr w3"
    and s4: "extern E ''gridUpdateSet'' [Bool True] w3 = Inr w4"
    and s5: "(if \<not> embed E then extern E ''plotArea.reset'' [] w4 else Inr w4) = Inr w5"
    and s6: "extern E ''scheduleUpdate'' [Num 1] w5 = Inr w'"
    unfolding load_finish_def bindE_eq_Inr by blast
  show ?thesis
    using opt [OF s1] ext [OF s2] ext [OF s3] ext [OF s4] opt [OF s5] ext [OF s6] by simp
qed

text \<open>
  C8. With a persisted tab order, \<open>load\<close> sorts the circuit list by the position of
  each tab in that order, after the scopes are loaded and the clock is restored, and goes
  on from the store in which only the circuit list has changed: the list there is a
  rearrangement of the list before, in ascending position, in which tabs of equal
  position keep their relative order; in particular the tabs absent from the persisted
  order keep their relative order. When the procedures called afterwards leave the
  circuit list alone, this is the circuit list that \<open>load\<close> leaves.
\<close>

theorem load_reorders_tabs_stably:
  assumes tabs: "orderedTabs data = Some tabs"
    and prepared: "load_prepare E data w = Inr w4"
  shows "\<exists>ts. load E (Some data) w = load_finish E data (w4\<lparr>circuit_list := ts\<rparr>)
     \<and> sorted (map (tab_position E tabs) ts)
     \<and> mset ts = mset (circuit_list w4)
     \<and> (\<forall>k. filter (\<lambda>a. tab_position E tabs a = k) ts
            = filter (\<lambda>a. tab_position E tabs a = k) (circuit_list w4))
     \<and> filter (\<lambda>a. String_of E (tab_id a) \<notin> set tabs) ts
            = filter (\<lambda>a. String_of E (tab_id a) \<notin> set tabs) (circuit_list w4)
     \<and> ((\<forall>f args u v. extern E f args u = Inr v \<longrightarrow> circuit_list v = circuit_list u)
          \<longrightarrow> (\<forall>w'. load E (Some data) w = Inr w' \<longrightarrow> circuit_list w' = ts))"
proof -
  let ?f = "tab_position E tabs"
  let ?ts = "sort_key ?f (circuit_list w4)"
  have sorted_list: "reorder_tabs E data w4 = w4\<lparr>circuit_list := ?ts\<rparr>"
    using tabs by (simp add: reorder_tabs_def array_sort_sort_key)
  have run: "load E (Some data) w = load_finish E data (w4\<lparr>circuit_list := ?ts\<rparr>)"
    using prepared by (simp add: load_def sorted_list)
  have absent: "(\<lambda>a. String_of E (tab_id a) \<notin> set tabs) = (\<lambda>a. ?f a = - 1)"
    by (simp add: tab_position_def indexOf_absent)
  have final: "circuit_list w' = ?ts"
    if "\<forall>f args u v. extern E f args u = Inr v \<longrightarrow> circuit_list v = circuit_list u"
      and "load E (Some data) w = Inr w'" for w'
    using load_finish_circuit_list [OF that(1) that(2) [unfolded run]] by simp
  show ?thesis
  proof (intro exI conjI)
    show "load E (Some data) w = load_finish E data (w4\<lparr>circuit_list := ?ts\<rparr>)" by (rule run)
    show "sorted (map ?f ?ts)" by simp
    show "mset ?ts = mset (circuit_list w4)" by simp
    show "\<forall>k. filter (\<lambda>a. ?f a = k) ?ts = filter (\<lambda>a. ?f a = k) (circuit_list w4)"
      by (simp add: sort_key_stable)
    show "filter (\<lambda>a. String_of E (tab_id a) \<notin> set tabs) ?ts
            = filter (\<lambda>a. String_of E (tab_id a) \<notin> set tabs) (circuit_list w4)"
      unfolding absent by (simp add: sort_key_stable)
    show "(\<forall>f args u v. extern E f args u = Inr v \<longrightarrow> circuit_list v = circuit_list u)
          \<longrightarrow> (\<forall>w'. load E (Some data) w = Inr w' \<longrightarrow> circuit_list w' = ?ts)"
      using final by blast
  qed
qed

theorem load_reorders_tabs_stably_witness:
  "orderedTabs tabs_project = Some [''2'', ''1'']
   \<and> load_prepare example_env tabs_project tabs_world = Inr (tabs_world\<lparr>sim_clockEnabled := True\<rparr>)
   \<and> circuit_list tabs_world
       = [\<lparr>tab_id = Str ''1''\<rparr>, \<lparr>tab_id = Str ''3''\<rparr>, \<lparr>tab_id = Str ''2''\<rparr>, \<lparr>tab_id = Str ''4''\<rparr>]
   \<and> (\<exists>w'. load example_env (Some tabs_project) tabs_world = Inr w'
         \<and> circuit_list w'
             = [\<lparr>tab_id = Str ''3''\<rparr>, \<lparr>tab_id = Str ''4''\<rparr>, \<lparr>tab_id = Str ''2''\<rparr>, \<lparr>tab_id = Str ''1''\<rparr>]
         \<and> sorted (map (tab_position example_env [''2'', ''1'']) (circuit_list w'))
         \<and> filter (\<lambda>a. String_of example_env (tab_id a) \<notin> set [''2'', ''1'']) (circuit_list w')
             = [\<lparr>tab_id = Str ''3''\<rparr>, \<lparr>tab_id = Str ''4''\<rparr>])"
proof -
  let ?w4 = "tabs_world\<lparr>sim_clockEnabled := True\<rparr>"
  let ?sorted = "[\<lparr>tab_id = Str ''3''\<rparr>, \<lparr>tab_id = Str ''4''\<rparr>, \<lparr>tab_id = Str ''2''\<rparr>, \<lparr>tab_id = Str ''1''\<rparr>]"
  have h1: "orderedTabs tabs_project = Some [''2'', ''1'']"
    by (simp add: tabs_project_def)
  have h2: "load_prepare example_env tabs_project tabs_world = Inr ?w4"
    by (simp add: load_prepare_def restore_clock_def tabs_project_def tabs_world_def
        example_env_def example_world_def js_or_def opt_num_def)
  have before: "circuit_list ?w4
       = [\<lparr>tab_id = Str ''1''\<rparr>, \<lparr>tab_id = Str ''3''\<rparr>, \<lparr>tab_id = Str ''2''\<rparr>, \<lparr>tab_id = Str ''4''\<rparr>]"
    by (simp add: tabs_world_def)
  have pos: "tab_position example_env [''2'', ''1''] \<lparr>tab_id = Str ''1''\<rparr> = 1"
    "tab_position example_env [''2'', ''1''] \<lparr>tab_id = Str ''2''\<rparr> = 0"
    "tab_position example_env [''2'', ''1''] \<lparr>tab_id = Str ''3''\<rparr> = - 1"
    "tab_position example_env [''2'', ''1''] \<lparr>tab_id = Str ''4''\<rparr> = - 1"
    by (simp_all add: tab_position_def example_env_def)
  have str: "String_of example_env (Str s) = s" for s
    by (simp add: example_env_def)
  have keeps: "\<forall>f args u v. extern example_env f args u = Inr v \<longrightarrow> circuit_list v = circuit_list u"
    by (simp add: example_env_def)
  have returns: "load_finish example_env tabs_project u = Inr u" for u
    by (simp add: load_finish_def tabs_project_def example_env_def opt_val_def)
  from load_reorders_tabs_stably [OF h1 h2]
  obtain ts where run: "load example_env (Some tabs_project) tabs_world
        = load_finish example_env tabs_project (?w4\<lparr>circuit_list := ts\<rparr>)"
    and asc: "sorted (map (tab_position example_env [''2'', ''1'']) ts)"
    and perm: "mset ts = mset (circuit_list ?w4)"
    and stable: "\<forall>k. filter (\<lambda>a. tab_position example_env [''2'', ''1''] a = k) ts
            = filter (\<lambda>a. tab_position example_env [''2'', ''1''] a = k) (circuit_list ?w4)"
    and absent: "filter (\<lambda>a. String_of example_env (tab_id a) \<notin> set [''2'', ''1'']) ts
            = filter (\<lambda>a. String_of example_env (tab_id a) \<notin> set [''2'', ''1'']) (circuit_list ?w4)"
    and final: "(\<forall>f args u v. extern example_env f args u = Inr v \<longrightarrow> circuit_list v = circuit_list u)
          \<longrightarrow> (\<forall>w'. load example_env (Some tabs_project) tabs_world = Inr w'
                 \<longrightarrow> circuit_list w' = ts)"
    by blast
  have list: "ts = sort_key (tab_position example_env [''2'', ''1'']) (circuit_list ?w4)"
  proof (rule properties_for_sort_key [symmetric])
    show "mset ts = mset (circuit_list ?w4)" by (rule perm)
    show "sorted (map (tab_position example_env [''2'', ''1'']) ts)" by (rule asc)
    show "filter (\<lambda>x. tab_position example_env [''2'', ''1''] k
                       = tab_position example_env [''2'', ''1''] x) ts
        = filter (\<lambda>x. tab_position example_env [''2'', ''1''] k
                       = tab_position example_env [''2'', ''1''] x) (circuit_list ?w4)" for k
      using stable [rule_format, of "tab_position example_env [''2'', ''1''] k"]
      by (simp add: eq_commute)
  qed
  have sorted_ts: "ts = ?sorted"
    unfolding list before by (simp add: pos)
  have returned: "load example_env (Some tabs_project) tabs_world = Inr (?w4\<lparr>circuit_list := ts\<rparr>)"
    unfolding run by (rule returns)
  have ex: "\<exists>w'. load example_env (Some tabs_project) tabs_world = Inr w'
         \<and> circuit_list w' = ?sorted
         \<and> sorted (map (tab_position example_env [''2'', ''1'']) (circuit_list w'))
         \<and> filter (\<lambda>a. String_of example_env (tab_id a) \<notin> set [''2'', ''1'']) (circuit_list w')
             = [\<lparr>tab_id = Str ''3''\<rparr>, \<lparr>tab_id = Str ''4''\<rparr>]"
  proof (intro exI conjI)
    show "load example_env (Some tabs_project) tabs_world = Inr (?w4\<lparr>circuit_list := ts\<rparr>)"
      by (rule returned)
    show "circuit_list (?w4\<lparr>circuit_list := ts\<rparr>) = ?sorted"
      using final [rule_format, OF keeps [rule_format] returned] by (simp add: sorted_ts)
    show "sorted (map (tab_position example_env [''2'', ''1'']) (circuit_list (?w4\<lparr>circuit_list := ts\<rparr>)))"
      using asc by simp
    show "filter (\<lambda>a. String_of example_env (tab_id a) \<notin> set [''2'', ''1''])
            (circuit_list (?w4\<lparr>circuit_list := ts\<rparr>))
          = [\<lparr>tab_id = Str ''3''\<rparr>, \<lparr>tab_id = Str ''4''\<rparr>]"
      using absent by (simp add: before str)
  qed
  show ?thesis
    using h1 h2 before ex by simp
qed

end
